theory Spec2Isabelle
  imports Main "HOL-Library.AList"
begin

section \<open>Common Python notions\<close>

text \<open>
  Exceptions are values. The constructor names the Python exception class, the string is
  its message (what \<^verbatim>\<open>str(e)\<close> returns).
\<close>

datatype error =
    Exception string
  | RuntimeError string
  | JSONDecodeError string
  | KeyError string
  | TypeError string
  | AttributeError string
  | ValidationError string
  | ValueError string
  | Unmodelled string

text \<open>
  \<^const>\<open>Unmodelled\<close> is not a Python exception: it marks a text that the parser of this
  theory does not cover, because Python's value cannot be held by the types of this
  theory (a floating-point number, a code point above 255). The functions of the
  repository take the library's parser as a parameter, so that nothing proved of them
  reads \<^const>\<open>Unmodelled\<close> as an exception.
\<close>

fun error_str :: "error \<Rightarrow> string" where
  "error_str (Exception m) = m"
| "error_str (RuntimeError m) = m"
| "error_str (JSONDecodeError m) = m"
| "error_str (KeyError m) = m"
| "error_str (TypeError m) = m"
| "error_str (AttributeError m) = m"
| "error_str (ValidationError m) = m"
| "error_str (ValueError m) = m"
| "error_str (Unmodelled m) = m"

text \<open>\<^verbatim>\<open>sep.join(parts)\<close>.\<close>

fun str_join :: "string \<Rightarrow> string list \<Rightarrow> string" where
  "str_join sep [] = []"
| "str_join sep [x] = x"
| "str_join sep (x # y # ys) = x @ sep @ str_join sep (y # ys)"

definition newline :: string where
  "newline = [CHR 0x0A]"

text \<open>An f-string fragment \<^verbatim>\<open>'{s}'\<close>: the text between two apostrophes.\<close>

definition quoted :: "string \<Rightarrow> string" where
  "quoted s = [CHR 0x27] @ s @ [CHR 0x27]"

text \<open>\<^verbatim>\<open>s.rstrip("/")\<close>.\<close>

definition rstrip_slash :: "string \<Rightarrow> string" where
  "rstrip_slash s = rev (dropWhile (\<lambda>c. c = CHR ''/'') (rev s))"

section \<open>JSON values and JSON text\<close>

text \<open>
  Modelled from the spec: the canonical JSON-text representation of structured data, that
  is, the serialiser \<^verbatim>\<open>json.dumps\<close> and the parser \<^verbatim>\<open>json.loads\<close> of the Python
  standard library, which the repository calls and whose code is not part of its sources.
  A value is what \<^verbatim>\<open>json.loads\<close> can return without floating-point numbers: \<^verbatim>\<open>None\<close>,
  a boolean, an integer, a string, a list, or a dictionary with string keys (an
  association list in insertion order). A \<^typ>\<open>char\<close> stands for a code point below 256.
\<close>

datatype json =
    JNull
  | JBool bool
  | JInt int
  | JStr string
  | JArr "json list"
  | JObj "(string \<times> json) list"

text \<open>
  \<^verbatim>\<open>json.dumps(obj, ensure_ascii=...)\<close> with the default separators \<^verbatim>\<open>", "\<close> and
  \<^verbatim>\<open>": "\<close>: integers in decimal, strings between double quotes with the escapes of
  \<^verbatim>\<open>json.encoder\<close> (with \<^verbatim>\<open>ensure_ascii\<close> every character outside the printable ASCII
  range becomes a \<^verbatim>\<open>\uXXXX\<close> escape, without it only the control characters).
\<close>

definition digit_char :: "nat \<Rightarrow> char" where
  "digit_char d = char_of (of_char CHR ''0'' + d)"

fun str_nat :: "nat \<Rightarrow> string" where
  "str_nat n = (if n < 10 then [digit_char n] else str_nat (n div 10) @ [digit_char (n mod 10)])"

definition str_int :: "int \<Rightarrow> string" where
  "str_int i = (if i < 0 then CHR ''-'' # str_nat (nat (- i)) else str_nat (nat i))"

definition hex_char :: "nat \<Rightarrow> char" where
  "hex_char d = (if d < 10 then char_of (of_char CHR ''0'' + d) else char_of (of_char CHR ''a'' + (d - 10)))"

definition backslash :: char where
  "backslash = CHR 0x5C"

definition dquote :: char where
  "dquote = CHR 0x22"

definition u_escape :: "char \<Rightarrow> string" where
  "u_escape c = [backslash, CHR ''u'', CHR ''0'', CHR ''0'',
                 hex_char (of_char c div 16), hex_char (of_char c mod 16)]"

definition escape_char :: "bool \<Rightarrow> char \<Rightarrow> string" where
  "escape_char ensure_ascii c =
     (if c = dquote then [backslash, dquote]
      else if c = backslash then [backslash, backslash]
      else if c = CHR 0x0A then [backslash, CHR ''n'']
      else if c = CHR 0x0D then [backslash, CHR ''r'']
      else if c = CHR 0x09 then [backslash, CHR ''t'']
      else if c = CHR 0x08 then [backslash, CHR ''b'']
      else if c = CHR 0x0C then [backslash, CHR ''f'']
      else if (of_char c :: nat) < 0x20 then u_escape c
      else if ensure_ascii \<and> (of_char c :: nat) > 0x7E then u_escape c
      else [c])"

definition encode_basestring :: "bool \<Rightarrow> string \<Rightarrow> string" where
  "encode_basestring ensure_ascii s = dquote # concat (map (escape_char ensure_ascii) s) @ [dquote]"

fun json_dumps :: "bool \<Rightarrow> json \<Rightarrow> string"
  and dumps_items :: "bool \<Rightarrow> json list \<Rightarrow> string"
  and dumps_members :: "bool \<Rightarrow> (string \<times> json) list \<Rightarrow> string" where
  "json_dumps ea JNull = ''null''"
| "json_dumps ea (JBool b) = (if b then ''true'' else ''false'')"
| "json_dumps ea (JInt i) = str_int i"
| "json_dumps ea (JStr s) = encode_basestring ea s"
| "json_dumps ea (JArr xs) = ''['' @ dumps_items ea xs @ '']''"
| "json_dumps ea (JObj kvs) = ''{'' @ dumps_members ea kvs @ ''}''"
| "dumps_items ea [] = []"
| "dumps_items ea [x] = json_dumps ea x"
| "dumps_items ea (x # y # ys) = json_dumps ea x @ '', '' @ dumps_items ea (y # ys)"
| "dumps_members ea [] = []"
| "dumps_members ea [(k, v)] = encode_basestring ea k @ '': '' @ json_dumps ea v"
| "dumps_members ea ((k, v) # kv # kvs) =
     encode_basestring ea k @ '': '' @ json_dumps ea v @ '', '' @ dumps_members ea (kv # kvs)"

text \<open>
  \<^verbatim>\<open>json.loads(s)\<close>: the scanner of \<^verbatim>\<open>json.decoder\<close> and \<^verbatim>\<open>json.scanner\<close>, on the texts
  whose values are of type \<^typ>\<open>json\<close>. On a text with a floating-point literal or an
  escape for a code point above 255 the result is \<^const>\<open>Unmodelled\<close>. This parser is the
  instance of \<^verbatim>\<open>json.loads\<close> at which the agents are run on concrete conversations; what
  is proved of the agents is proved for every parser. A \<^const>\<open>JSONDecodeError\<close> carries the
  message without the position. The first argument of the three mutually recursive
  scanners bounds their recursion; \<open>json_loads\<close> starts them with more than the length of
  the text.
\<close>

definition is_ws :: "char \<Rightarrow> bool" where
  "is_ws c \<longleftrightarrow> c = CHR '' '' \<or> c = CHR 0x09 \<or> c = CHR 0x0A \<or> c = CHR 0x0D"

definition skip_ws :: "string \<Rightarrow> string" where
  "skip_ws s = dropWhile is_ws s"

definition is_digit :: "char \<Rightarrow> bool" where
  "is_digit c \<longleftrightarrow> (48::nat) \<le> of_char c \<and> (of_char c :: nat) \<le> 57"

definition digit_val :: "char \<Rightarrow> nat" where
  "digit_val c = of_char c - 48"

definition nat_of_digits :: "string \<Rightarrow> nat" where
  "nat_of_digits ds = foldl (\<lambda>acc c. acc * 10 + digit_val c) 0 ds"

definition hex_val :: "char \<Rightarrow> nat option" where
  "hex_val c =
     (let n = (of_char c :: nat) in
      if 48 \<le> n \<and> n \<le> 57 then Some (n - 48)
      else if 97 \<le> n \<and> n \<le> 102 then Some (n - 87)
      else if 65 \<le> n \<and> n \<le> 70 then Some (n - 55)
      else None)"

definition hex4 :: "char \<Rightarrow> char \<Rightarrow> char \<Rightarrow> char \<Rightarrow> nat option" where
  "hex4 a b c d =
     (case (hex_val a, hex_val b, hex_val c, hex_val d) of
        (Some w, Some x, Some y, Some z) \<Rightarrow> Some (((w * 16 + x) * 16 + y) * 16 + z)
      | _ \<Rightarrow> None)"

definition unescape :: "char \<Rightarrow> char option" where
  "unescape e =
     (if e = dquote then Some dquote
      else if e = backslash then Some backslash
      else if e = CHR ''/'' then Some CHR ''/''
      else if e = CHR ''b'' then Some (CHR 0x08)
      else if e = CHR ''f'' then Some (CHR 0x0C)
      else if e = CHR ''n'' then Some (CHR 0x0A)
      else if e = CHR ''r'' then Some (CHR 0x0D)
      else if e = CHR ''t'' then Some (CHR 0x09)
      else None)"

fun scanstring :: "string \<Rightarrow> string \<Rightarrow> error + (string \<times> string)" where
  "scanstring [] acc = Inl (JSONDecodeError ''Unterminated string starting at'')"
| "scanstring (c # cs) acc =
     (if c = dquote then Inr (acc, cs)
      else if c = backslash then
        (case cs of
           [] \<Rightarrow> Inl (JSONDecodeError ''Unterminated string starting at'')
         | e # r \<Rightarrow>
             if e = CHR ''u'' then
               (case r of
                  h1 # h2 # h3 # h4 # r' \<Rightarrow>
                    (case hex4 h1 h2 h3 h4 of
                       None \<Rightarrow> Inl (JSONDecodeError (''Invalid '' @ [backslash] @ ''uXXXX escape''))
                     | Some n \<Rightarrow>
                         if n < 256 then scanstring r' (acc @ [char_of n])
                         else Inl (Unmodelled ''code point above 255''))
                | _ \<Rightarrow> Inl (JSONDecodeError (''Invalid '' @ [backslash] @ ''uXXXX escape'')))
             else
               (case unescape e of
                  None \<Rightarrow> Inl (JSONDecodeError (''Invalid '' @ [backslash] @ ''escape''))
                | Some x \<Rightarrow> scanstring r (acc @ [x])))
      else if (of_char c :: nat) < 0x20 then Inl (JSONDecodeError ''Invalid control character at'')
      else scanstring cs (acc @ [c]))"

definition scan_int :: "string \<Rightarrow> (int \<times> string) option" where
  "scan_int s =
     (let (neg, s1) = (case s of [] \<Rightarrow> (False, s)
                       | c # r \<Rightarrow> if c = CHR ''-'' then (True, r) else (False, s))
      in case s1 of
           [] \<Rightarrow> None
         | c # r \<Rightarrow>
             if c = CHR ''0'' then Some (0, r)
             else if is_digit c then
               Some ((if neg then - int (nat_of_digits (takeWhile is_digit s1))
                      else int (nat_of_digits (takeWhile is_digit s1))),
                     dropWhile is_digit s1)
             else None)"

definition has_frac :: "string \<Rightarrow> bool" where
  "has_frac s = (case s of c # d # _ \<Rightarrow> c = CHR ''.'' \<and> is_digit d | _ \<Rightarrow> False)"

definition has_exp :: "string \<Rightarrow> bool" where
  "has_exp s =
     (case s of
        c # d # r \<Rightarrow>
          (c = CHR ''e'' \<or> c = CHR ''E'') \<and>
          (is_digit d \<or> ((d = CHR ''+'' \<or> d = CHR ''-'') \<and> (case r of x # _ \<Rightarrow> is_digit x | [] \<Rightarrow> False)))
      | _ \<Rightarrow> False)"

definition dict_of_pairs :: "(string \<times> json) list \<Rightarrow> (string \<times> json) list" where
  "dict_of_pairs pairs = foldl (\<lambda>d (k, v). AList.update k v d) [] pairs"

definition starts_with :: "string \<Rightarrow> string \<Rightarrow> bool" where
  "starts_with p s \<longleftrightarrow> take (length p) s = p"

fun scan_once :: "nat \<Rightarrow> string \<Rightarrow> error + (json \<times> string)"
  and scan_array :: "nat \<Rightarrow> string \<Rightarrow> json list \<Rightarrow> error + (json list \<times> string)"
  and scan_object :: "nat \<Rightarrow> string \<Rightarrow> (string \<times> json) list \<Rightarrow> error + ((string \<times> json) list \<times> string)"
  where
  "scan_once 0 s = Inl (Unmodelled ''nesting'')"
| "scan_once (Suc n) s =
     (case s of
        [] \<Rightarrow> Inl (JSONDecodeError ''Expecting value'')
      | c # cs \<Rightarrow>
          if c = dquote then
            (case scanstring cs [] of
               Inl e \<Rightarrow> Inl e
             | Inr (str, r) \<Rightarrow> Inr (JStr str, r))
          else if c = CHR ''{'' then
            (case skip_ws cs of
               [] \<Rightarrow> Inl (JSONDecodeError ''Expecting property name enclosed in double quotes'')
             | d # r \<Rightarrow>
                 if d = dquote then
                   (case scan_object n (d # r) [] of
                      Inl e \<Rightarrow> Inl e
                    | Inr (pairs, r') \<Rightarrow> Inr (JObj (dict_of_pairs pairs), r'))
                 else if d = CHR ''}'' then Inr (JObj [], r)
                 else Inl (JSONDecodeError ''Expecting property name enclosed in double quotes''))
          else if c = CHR ''['' then
            (case skip_ws cs of
               [] \<Rightarrow> Inl (JSONDecodeError ''Expecting value'')
             | d # r \<Rightarrow>
                 if d = CHR '']'' then Inr (JArr [], r)
                 else
                   (case scan_array n (d # r) [] of
                      Inl e \<Rightarrow> Inl e
                    | Inr (values, r') \<Rightarrow> Inr (JArr values, r')))
          else if starts_with ''null'' s then Inr (JNull, drop 4 s)
          else if starts_with ''true'' s then Inr (JBool True, drop 4 s)
          else if starts_with ''false'' s then Inr (JBool False, drop 5 s)
          else
            (case scan_int s of
               Some (i, r) \<Rightarrow>
                 if has_frac r \<or> has_exp r then Inl (Unmodelled ''float'')
                 else Inr (JInt i, r)
             | None \<Rightarrow>
                 if starts_with ''NaN'' s \<or> starts_with ''Infinity'' s \<or> starts_with ''-Infinity'' s
                 then Inl (Unmodelled ''float'')
                 else Inl (JSONDecodeError ''Expecting value'')))"
| "scan_array 0 s values = Inl (Unmodelled ''nesting'')"
| "scan_array (Suc n) s values =
     (case scan_once n s of
        Inl e \<Rightarrow> Inl e
      | Inr (v, r) \<Rightarrow>
          (case skip_ws r of
             [] \<Rightarrow> Inl (JSONDecodeError ''Expecting , delimiter'')
           | c # r' \<Rightarrow>
               if c = CHR '']'' then Inr (values @ [v], r')
               else if c = CHR '','' then scan_array n (skip_ws r') (values @ [v])
               else Inl (JSONDecodeError ''Expecting , delimiter'')))"
| "scan_object 0 s pairs = Inl (Unmodelled ''nesting'')"
| "scan_object (Suc n) s pairs =
     (case s of
        [] \<Rightarrow> Inl (JSONDecodeError ''Expecting property name enclosed in double quotes'')
      | q # cs \<Rightarrow>
          if q \<noteq> dquote
          then Inl (JSONDecodeError ''Expecting property name enclosed in double quotes'')
          else
            (case scanstring cs [] of
               Inl e \<Rightarrow> Inl e
             | Inr (key, r1) \<Rightarrow>
                 (case skip_ws r1 of
                    [] \<Rightarrow> Inl (JSONDecodeError ''Expecting : delimiter'')
                  | c # r2 \<Rightarrow>
                      if c \<noteq> CHR '':'' then Inl (JSONDecodeError ''Expecting : delimiter'')
                      else
                        (case scan_once n (skip_ws r2) of
                           Inl e \<Rightarrow> Inl e
                         | Inr (v, r3) \<Rightarrow>
                             (case skip_ws r3 of
                                [] \<Rightarrow> Inl (JSONDecodeError ''Expecting , delimiter'')
                              | c' # r4 \<Rightarrow>
                                  if c' = CHR ''}'' then Inr (pairs @ [(key, v)], r4)
                                  else if c' = CHR '','' then scan_object n (skip_ws r4) (pairs @ [(key, v)])
                                  else Inl (JSONDecodeError ''Expecting , delimiter''))))))"

definition json_loads :: "string \<Rightarrow> error + json" where
  "json_loads s =
     (case scan_once (Suc (length s)) (skip_ws s) of
        Inl e \<Rightarrow> Inl e
      | Inr (obj, r) \<Rightarrow> if skip_ws r = [] then Inr obj else Inl (JSONDecodeError ''Extra data''))"


text \<open>
  The values that are Python data: in a dictionary every key occurs once.
\<close>

fun wf_json :: "json \<Rightarrow> bool" where
  "wf_json (JArr xs) = list_all wf_json xs"
| "wf_json (JObj kvs) = (distinct (map fst kvs) \<and> list_all (\<lambda>kv. wf_json (snd kv)) kvs)"
| "wf_json j = True"

subsection \<open>Notions used to state the round trip\<close>

text \<open>
  The characters that can follow a value inside serialised text, and the characters a
  serialised value can start with.
\<close>

definition ok_rest :: "string \<Rightarrow> bool" where
  "ok_rest r \<longleftrightarrow> (case r of [] \<Rightarrow> True | c # _ \<Rightarrow> c = CHR '','' \<or> c = CHR '']'' \<or> c = CHR ''}'')"

definition value_start :: "char \<Rightarrow> bool" where
  "value_start c \<longleftrightarrow> c = dquote \<or> c = CHR ''{'' \<or> c = CHR ''['' \<or> c = CHR ''n'' \<or> c = CHR ''t''
     \<or> c = CHR ''f'' \<or> c = CHR ''-'' \<or> is_digit c"

section \<open>The tool backend boundary\<close>

text \<open>
  A part of a tool response's content list. \<^verbatim>\<open>TextContent\<close> has the attribute
  \<^verbatim>\<open>text\<close>; every other kind of part (image, embedded resource, a plain string) has
  not, and is kept with what \<^verbatim>\<open>str(p)\<close> returns for it.
\<close>

datatype content_part =
    TextContent (part_text: string)
  | OtherContent (part_str: string)

fun has_text :: "content_part \<Rightarrow> bool" where
  "has_text (TextContent t) = True"
| "has_text (OtherContent s) = False"

text \<open>
  The response of \<^verbatim>\<open>session.call_tool\<close>; \<open>'j\<close> is the type of structured JSON
  payloads.
\<close>

record 'j CallToolResult =
  content :: "content_part list"
  structuredContent :: "'j option"

section \<open>\<^verbatim>\<open>lesson_5/src/clients/multi_mcp_client.py\<close>\<close>

subsection \<open>MCPServerConnection\<close>

text \<open>
  An open client session is an opaque handle; the model keeps the name of the connection
  that opened it, which identifies the tool source a call through it reaches.
\<close>

datatype ClientSession = ClientSession string

text \<open>
  The fields of the class. The three context handles are only ever assigned and reset, so
  the model keeps whether each is set (not \<^verbatim>\<open>None\<close>).
\<close>

record MCPServerConnection =
  name :: string
  server_url :: string
  session :: "ClientSession option"
  http_context :: bool
  session_context :: bool
  streams :: bool
  tools :: "string list"
  connected :: bool

definition MCPServerConnection_init :: "string \<Rightarrow> string \<Rightarrow> MCPServerConnection" where
  "MCPServerConnection_init nm url =
     \<lparr>name = nm, server_url = rstrip_slash url, session = None, http_context = False,
      session_context = False, streams = False, tools = [], connected = False\<rparr>"

text \<open>
  What the remote endpoint does during one \<^verbatim>\<open>connect()\<close>: the first awaited step that
  raises, with its exception, or the tool names that \<^verbatim>\<open>list_tools()\<close> reports.
\<close>

datatype connect_outcome =
    HttpEnterRaises error
  | SessionEnterRaises error
  | InitializeRaises error
  | ListToolsRaises error
  | ToolsListed "string list"

text \<open>
  \<^verbatim>\<open>MCPServerConnection.connect\<close>. The result is the exception that propagates (if any)
  and the object as the call leaves it: the assignments made before the failing step
  stay, and the handler resets \<^verbatim>\<open>_connected\<close> before re-raising.
\<close>

fun MCPServerConnection_connect ::
  "connect_outcome \<Rightarrow> MCPServerConnection \<Rightarrow> error option \<times> MCPServerConnection" where
  "MCPServerConnection_connect (HttpEnterRaises e) self =
     (Some e, self\<lparr>http_context := True, connected := False\<rparr>)"
| "MCPServerConnection_connect (SessionEnterRaises e) self =
     (Some e, self\<lparr>http_context := True, streams := True, session_context := True,
                   connected := False\<rparr>)"
| "MCPServerConnection_connect (InitializeRaises e) self =
     (Some e, self\<lparr>http_context := True, streams := True, session_context := True,
                   session := Some (ClientSession (name self)), connected := False\<rparr>)"
| "MCPServerConnection_connect (ListToolsRaises e) self =
     (Some e, self\<lparr>http_context := True, streams := True, session_context := True,
                   session := Some (ClientSession (name self)), connected := False\<rparr>)"
| "MCPServerConnection_connect (ToolsListed ts) self =
     (None, self\<lparr>http_context := True, streams := True, session_context := True,
                 session := Some (ClientSession (name self)), tools := ts,
                 connected := True\<rparr>)"

text \<open>\<^verbatim>\<open>MCPServerConnection.disconnect\<close>: nothing happens unless the object is connected.\<close>

definition MCPServerConnection_disconnect :: "MCPServerConnection \<Rightarrow> MCPServerConnection" where
  "MCPServerConnection_disconnect self =
     (if \<not> connected self then self
      else self\<lparr>session := None, session_context := False, http_context := False,
                streams := False, connected := False\<rparr>)"

subsection \<open>MultiMCPClient\<close>

text \<open>
  The router holds two dictionaries whose values are the \<^emph>\<open>same\<close> connection objects:
  \<^verbatim>\<open>connections\<close> (server name to connection) and \<^verbatim>\<open>_tool_to_server\<close> (tool name to
  connection). The objects live in an explicit store, the dictionaries hold references.
  Dictionaries are association lists in insertion order with one pair per key; assigning
  to a key is \<^const>\<open>AList.update\<close>, \<^verbatim>\<open>d.get(k)\<close> is \<^const>\<open>map_of\<close>.
\<close>

type_synonym ref = nat

record MultiMCPClient =
  heap :: "ref \<Rightarrow> MCPServerConnection"
  connections :: "(string \<times> ref) list"
  tool_to_server :: "(string \<times> ref) list"

text \<open>
  \<^verbatim>\<open>__init__\<close>: one new connection object per configured server, in the order of the
  \<^verbatim>\<open>servers\<close> dictionary. With \<^verbatim>\<open>servers=None\<close> the two default servers are read from
  the environment (\<open>getenv\<close>).
\<close>

fun init_loop :: "(string \<times> string) list \<Rightarrow> ref \<Rightarrow> MultiMCPClient \<Rightarrow> MultiMCPClient" where
  "init_loop [] r self = self"
| "init_loop ((nm, url) # rest) r self =
     init_loop rest (Suc r)
       (self\<lparr>heap := (heap self)(r := MCPServerConnection_init nm url),
             connections := AList.update nm r (connections self)\<rparr>)"

definition os_getenv :: "(string \<Rightarrow> string option) \<Rightarrow> string \<Rightarrow> string \<Rightarrow> string" where
  "os_getenv getenv key dflt = (case getenv key of None \<Rightarrow> dflt | Some v \<Rightarrow> v)"

definition MultiMCPClient_init ::
  "(string \<Rightarrow> string option) \<Rightarrow> (string \<times> string) list option \<Rightarrow> MultiMCPClient" where
  "MultiMCPClient_init getenv servers =
     (let servers' = (case servers of
                        None \<Rightarrow> [(''weather'', os_getenv getenv ''MCP_WEATHER_URL'' ''http://localhost:8002''),
                                 (''db'', os_getenv getenv ''MCP_DB_URL'' ''http://localhost:8003'')]
                      | Some s \<Rightarrow> s)
      in init_loop servers' 0
           \<lparr>heap = (\<lambda>r. MCPServerConnection_init [] []), connections = [], tool_to_server = []\<rparr>)"

text \<open>
  The inner loop of \<^verbatim>\<open>connect\<close>:
  \<^verbatim>\<open>for tool_name in conn.tools: self._tool_to_server[tool_name] = conn\<close>.
\<close>

fun register_tools :: "ref \<Rightarrow> string list \<Rightarrow> (string \<times> ref) list \<Rightarrow> (string \<times> ref) list" where
  "register_tools r [] reg = reg"
| "register_tools r (tool_name # rest) reg = register_tools r rest (AList.update tool_name r reg)"

text \<open>
  The outer loop of \<^verbatim>\<open>connect\<close> over \<^verbatim>\<open>self.connections.items()\<close>. The parameter \<open>world\<close>
  gives, for each connection name, what its endpoint does in this pass. A connection
  whose own \<^verbatim>\<open>connect\<close> raises is logged and skipped: the exception is caught, the object
  keeps what the failed call did to it.
\<close>

fun connect_loop ::
  "(string \<Rightarrow> connect_outcome) \<Rightarrow> (string \<times> ref) list \<Rightarrow> MultiMCPClient \<Rightarrow> MultiMCPClient" where
  "connect_loop world [] self = self"
| "connect_loop world ((nm, r) # rest) self =
     (case MCPServerConnection_connect (world nm) (heap self r) of
        (None, conn) \<Rightarrow>
          connect_loop world rest
            (self\<lparr>heap := (heap self)(r := conn),
                  tool_to_server := register_tools r (tools conn) (tool_to_server self)\<rparr>)
      | (Some e, conn) \<Rightarrow>
          connect_loop world rest (self\<lparr>heap := (heap self)(r := conn)\<rparr>))"

text \<open>
  \<^verbatim>\<open>MultiMCPClient.connect\<close>: the exception raised (if any) and the router as the call
  leaves it.
\<close>

definition MultiMCPClient_connect ::
  "(string \<Rightarrow> connect_outcome) \<Rightarrow> MultiMCPClient \<Rightarrow> error option \<times> MultiMCPClient" where
  "MultiMCPClient_connect world self =
     (let self' = connect_loop world (connections self) self
      in if tool_to_server self' = []
         then (Some (RuntimeError ''Failed to connect to any MCP server''), self')
         else (None, self'))"

text \<open>\<^verbatim>\<open>MultiMCPClient.disconnect\<close>; \<^verbatim>\<open>conn.disconnect()\<close> itself never raises.\<close>

fun disconnect_loop :: "(string \<times> ref) list \<Rightarrow> MultiMCPClient \<Rightarrow> MultiMCPClient" where
  "disconnect_loop [] self = self"
| "disconnect_loop ((nm, r) # rest) self =
     (if connected (heap self r)
      then disconnect_loop rest
             (self\<lparr>heap := (heap self)(r := MCPServerConnection_disconnect (heap self r))\<rparr>)
      else disconnect_loop rest self)"

definition MultiMCPClient_disconnect :: "MultiMCPClient \<Rightarrow> MultiMCPClient" where
  "MultiMCPClient_disconnect self = disconnect_loop (connections self) self"

text \<open>
  The text extraction of \<^verbatim>\<open>call_tool\<close>: the \<^verbatim>\<open>text\<close> of every part that has one, in
  order.
\<close>

fun text_parts :: "content_part list \<Rightarrow> string list" where
  "text_parts [] = []"
| "text_parts (c # cs) = (if has_text c then part_text c # text_parts cs else text_parts cs)"

text \<open>
  \<^verbatim>\<open>MultiMCPClient.call_tool\<close>. \<open>remote\<close> is what \<^verbatim>\<open>session.call_tool\<close> does on a given
  session: a response or an exception. The method always returns a string; the second
  component records the sessions on which a remote call was made.
\<close>

definition call_tool ::
  "(ClientSession \<Rightarrow> string \<Rightarrow> 'p \<Rightarrow> error + 'j CallToolResult) \<Rightarrow> MultiMCPClient \<Rightarrow>
   string \<Rightarrow> 'p \<Rightarrow> string \<times> ClientSession list" where
  "call_tool remote self tool_name parameters =
     (case map_of (tool_to_server self) tool_name of
        None \<Rightarrow> (''Error: Tool '' @ quoted tool_name @ '' not found on any connected server'', [])
      | Some r \<Rightarrow>
          (let conn = heap self r in
           case session conn of
             None \<Rightarrow> (''Error: Server '' @ quoted (name conn) @ '' is not connected'', [])
           | Some s \<Rightarrow>
               (case remote s tool_name parameters of
                  Inr response \<Rightarrow>
                    (if content response \<noteq> []
                     then (str_join newline (text_parts (content response)), [s])
                     else (''No response content'', [s]))
                | Inl e \<Rightarrow>
                    (''Error calling tool '' @ quoted tool_name @ '' on server ''
                       @ quoted (name conn) @ '': '' @ error_str e, [s]))))"

text \<open>\<^verbatim>\<open>get_server_for_tool\<close>.\<close>

definition get_server_for_tool :: "MultiMCPClient \<Rightarrow> string \<Rightarrow> string option" where
  "get_server_for_tool self tool_name =
     (case map_of (tool_to_server self) tool_name of
        None \<Rightarrow> None
      | Some r \<Rightarrow> Some (name (heap self r)))"

subsection \<open>Notions used to state the router's properties\<close>

text \<open>
  In a connect pass, the connection named \<open>nm\<close> reports the tool \<open>t\<close> when its own
  connect succeeds and \<open>t\<close> is in the tool list it caches.
\<close>

definition reports :: "(string \<Rightarrow> connect_outcome) \<Rightarrow> string \<Rightarrow> string \<Rightarrow> bool" where
  "reports world t nm = (case world nm of ToolsListed ts \<Rightarrow> t \<in> set ts | _ \<Rightarrow> False)"

text \<open>
  The last connection, in connection order, that reports \<open>t\<close> (last-registered-wins).
\<close>

definition last_reporting ::
  "(string \<Rightarrow> connect_outcome) \<Rightarrow> string \<Rightarrow> string list \<Rightarrow> string option" where
  "last_reporting world t nms =
     (case rev (filter (reports world t) nms) of [] \<Rightarrow> None | nm # _ \<Rightarrow> Some nm)"

text \<open>
  The shape every router built by \<^const>\<open>MultiMCPClient_init\<close> has: each connection object
  is referenced once, under its own name.
\<close>

definition wf_router :: "MultiMCPClient \<Rightarrow> bool" where
  "wf_router self \<longleftrightarrow>
     distinct (map snd (connections self)) \<and>
     (\<forall>(nm, r) \<in> set (connections self). name (heap self r) = nm)"

text \<open>
  A caller's sequence of \<^verbatim>\<open>connect()\<close> and \<^verbatim>\<open>disconnect()\<close> calls on one router; an
  exception raised by \<^verbatim>\<open>connect()\<close> is caught by the caller, the router keeps its state.
\<close>

datatype router_op = Connect "string \<Rightarrow> connect_outcome" | Disconnect

fun run_ops :: "router_op list \<Rightarrow> MultiMCPClient \<Rightarrow> MultiMCPClient" where
  "run_ops [] self = self"
| "run_ops (Connect world # ops) self = run_ops ops (snd (MultiMCPClient_connect world self))"
| "run_ops (Disconnect # ops) self = run_ops ops (MultiMCPClient_disconnect self)"

text \<open>
  The scenario of the specification: source \<open>1\<close> offers the tools \<open>a\<close> and \<open>b\<close>, source
  \<open>2\<close> offers \<open>b\<close> and \<open>c\<close>, and source \<open>1\<close> connects first.
\<close>

definition servers12 :: "(string \<times> string) list" where
  "servers12 = [(''1'', ''http://localhost:8002/''), (''2'', ''http://localhost:8003'')]"

definition world12 :: "string \<Rightarrow> connect_outcome" where
  "world12 nm = (if nm = ''1'' then ToolsListed [''a'', ''b'']
                 else if nm = ''2'' then ToolsListed [''b'', ''c'']
                 else HttpEnterRaises (Exception ''connection refused''))"

definition router12 :: MultiMCPClient where
  "router12 = snd (MultiMCPClient_connect world12 (MultiMCPClient_init (\<lambda>k. None) (Some servers12)))"

text \<open>A router with one source that connects and offers no tool at all.\<close>

definition world_no_tools :: "string \<Rightarrow> connect_outcome" where
  "world_no_tools nm = ToolsListed []"

definition servers_one :: "(string \<times> string) list" where
  "servers_one = [(''weather'', ''http://localhost:8002'')]"

text \<open>A tool backend that answers every call with one text part.\<close>

definition remote_ok :: "ClientSession \<Rightarrow> string \<Rightarrow> unit \<Rightarrow> error + unit CallToolResult" where
  "remote_ok s t p = Inr \<lparr>content = [TextContent ''21''], structuredContent = None\<rparr>"

section \<open>The LLM backend boundary\<close>

text \<open>
  The message of a chat completion (\<^verbatim>\<open>response.choices[0].message\<close>) with its tool
  calls, as the OpenAI client types have them: a tool call carries an identifier, the
  function name and the arguments as JSON text.
\<close>

record Function =
  fn_name :: string
  fn_arguments :: string

record ToolCall =
  tc_id :: string
  tc_function :: Function

record ChatCompletionMessage =
  msg_content :: "string option"
  msg_tool_calls :: "ToolCall list option"

text \<open>Python's truth value of \<^verbatim>\<open>message.tool_calls\<close>: neither \<^verbatim>\<open>None\<close> nor empty.\<close>

fun has_tool_calls :: "ChatCompletionMessage \<Rightarrow> bool" where
  "has_tool_calls m = (case msg_tool_calls m of None \<Rightarrow> False | Some tcs \<Rightarrow> tcs \<noteq> [])"

text \<open>
  An entry of the conversation list: a dictionary with role and content, the assistant
  dictionary that lesson 1 builds for a tool call (function name and re-serialised
  arguments), a tool-result dictionary (tool name and content), or a response message
  object appended as it is.
\<close>

datatype message =
    RoleContent string string
  | AssistantToolCall string string
  | ToolResult string string
  | ResponseMessage ChatCompletionMessage

text \<open>
  What \<^verbatim>\<open>Agent.run\<close> returns: the final message object, or the sentinel string.
\<close>

datatype run_result =
    FinalMessage ChatCompletionMessage
  | Sentinel string

definition sentinel_text :: string where
  "sentinel_text = ''Something is wrong sorry no sorry''"

text \<open>
  The conversation together with a record of the effects of a run: how many LLM calls
  were made and which tools were dispatched, with their parsed arguments, in order.
  \<open>'a\<close> is the type of the values that \<^verbatim>\<open>json.loads\<close> returns.
\<close>

record 'a run_state =
  messages :: "message list"
  llm_calls :: nat
  dispatched :: "(string \<times> 'a) list"

text \<open>
  An LLM backend: the answer to the \<open>i\<close>-th chat-completion request (counting from 0)
  for a conversation, or the exception the client raises.
\<close>

type_synonym llm = "nat \<Rightarrow> message list \<Rightarrow> error + ChatCompletionMessage"

section \<open>\<^verbatim>\<open>lesson_2/main.py\<close>\<close>

text \<open>\<^verbatim>\<open>mcp_tool_response_to_text\<close>.\<close>

fun part_to_text :: "content_part \<Rightarrow> string" where
  "part_to_text (TextContent txt) = txt"
| "part_to_text (OtherContent s) = s"

definition mcp_tool_response_to_text :: "json CallToolResult \<Rightarrow> string" where
  "mcp_tool_response_to_text resp =
     (case structuredContent resp of
        Some sc \<Rightarrow> json_dumps False sc
      | None \<Rightarrow>
          (let parts = map part_to_text (content resp)
           in if parts \<noteq> [] then str_join newline parts else []))"

text \<open>
  The body of the \<^verbatim>\<open>for tool_call in response_message.tool_calls\<close> loop. \<open>loads\<close> is
  \<^verbatim>\<open>json.loads\<close>, a library function that returns the parsed value or raises, and
  \<open>tool\<close> is what \<^verbatim>\<open>session.call_tool\<close> does. Nothing in \<^verbatim>\<open>run\<close> catches an exception,
  so the first tool call that fails to parse or to dispatch ends the run with its
  exception.
\<close>

definition arguments_or_empty :: "string \<Rightarrow> string" where
  "arguments_or_empty a = (if a = [] then ''{}'' else a)"

fun process_tool_calls ::
  "(string \<Rightarrow> error + 'a) \<Rightarrow> (string \<Rightarrow> 'a \<Rightarrow> error + json CallToolResult) \<Rightarrow> ToolCall list \<Rightarrow>
   'a run_state \<Rightarrow> error option \<times> 'a run_state" where
  "process_tool_calls loads tool [] st = (None, st)"
| "process_tool_calls loads tool (tool_call # rest) st =
     (let function_name = fn_name (tc_function tool_call) in
      case loads (arguments_or_empty (fn_arguments (tc_function tool_call))) of
        Inl e \<Rightarrow> (Some e, st)
      | Inr function_args \<Rightarrow>
          (case tool function_name function_args of
             Inl e \<Rightarrow> (Some e, st\<lparr>dispatched := dispatched st @ [(function_name, function_args)]\<rparr>)
           | Inr tool_response \<Rightarrow>
               process_tool_calls loads tool rest
                 (st\<lparr>messages := messages st @
                        [ToolResult function_name (mcp_tool_response_to_text tool_response)],
                     dispatched := dispatched st @ [(function_name, function_args)]\<rparr>)))"

text \<open>
  The \<^verbatim>\<open>while iteration < self.max_iterations\<close> loop of \<^verbatim>\<open>Agent.run\<close>, entered after the
  handshake with the tool server. The result is what the call returns or raises, and
  the state it leaves.
\<close>

function run_loop ::
  "llm \<Rightarrow> (string \<Rightarrow> error + 'a) \<Rightarrow> (string \<Rightarrow> 'a \<Rightarrow> error + json CallToolResult) \<Rightarrow> int \<Rightarrow> int \<Rightarrow>
   'a run_state \<Rightarrow> (error + run_result) \<times> 'a run_state" where
  "run_loop llm loads tool max_iterations iteration st =
     (if iteration < max_iterations then
        (case llm (llm_calls st) (messages st) of
           Inl e \<Rightarrow> (Inl e, st\<lparr>llm_calls := Suc (llm_calls st)\<rparr>)
         | Inr response_message \<Rightarrow>
             (let st1 = st\<lparr>messages := messages st @ [ResponseMessage response_message],
                          llm_calls := Suc (llm_calls st)\<rparr>
              in case msg_tool_calls response_message of
                   Some (tool_call # rest) \<Rightarrow>
                     (case process_tool_calls loads tool (tool_call # rest) st1 of
                        (Some e, st2) \<Rightarrow> (Inl e, st2)
                      | (None, st2) \<Rightarrow> run_loop llm loads tool max_iterations (iteration + 1) st2)
                 | _ \<Rightarrow> (Inr (FinalMessage response_message), st1)))
      else (Inr (Sentinel sentinel_text), st))"
  by pat_completeness auto
termination
  by (relation "measure (\<lambda>(llm, loads, tool, max_iterations, iteration, st).
        nat (max_iterations - iteration))") auto

record Agent =
  model :: string
  max_iterations :: int

definition Agent_init :: "string \<Rightarrow> Agent" where
  "Agent_init m = \<lparr>model = m, max_iterations = 10\<rparr>"

definition Agent_run ::
  "Agent \<Rightarrow> llm \<Rightarrow> (string \<Rightarrow> error + 'a) \<Rightarrow> (string \<Rightarrow> 'a \<Rightarrow> error + json CallToolResult) \<Rightarrow>
   message list \<Rightarrow> (error + run_result) \<times> 'a run_state" where
  "Agent_run self llm loads tool msgs =
     run_loop llm loads tool (max_iterations self) 0
       \<lparr>messages = msgs, llm_calls = 0, dispatched = []\<rparr>"

section \<open>\<^verbatim>\<open>lesson_1/main.py\<close>\<close>




section \<open>\<^verbatim>\<open>lesson_5/src/clients/ollama_client.py\<close> and \<^verbatim>\<open>llm_client.py\<close>\<close>

text \<open>
  The Ollama response is parsed JSON: a dictionary whose \<^verbatim>\<open>message\<close> entry holds
  \<^verbatim>\<open>content\<close>, \<^verbatim>\<open>thinking\<close> and \<^verbatim>\<open>tool_calls\<close>. \<^verbatim>\<open>d.get(key, default)\<close> and Python's
  truth value of a JSON value:
\<close>

definition py_get :: "(string \<times> json) list \<Rightarrow> string \<Rightarrow> json \<Rightarrow> json" where
  "py_get d key dflt = (case map_of d key of None \<Rightarrow> dflt | Some v \<Rightarrow> v)"


fun as_str :: "json \<Rightarrow> string option" where
  "as_str (JStr s) = Some s"
| "as_str j = None"

text \<open>
  The body of the loop over the backend's tool calls, the same in both clients:
  arguments that arrive as a dictionary are serialised with \<^verbatim>\<open>json.dumps\<close>, anything
  else is passed on as it is. The OpenAI types accept only strings for the identifier,
  the name and the arguments; \<open>i\<close> is the position used for a missing identifier.
\<close>

definition convert_tool_call :: "nat \<Rightarrow> json \<Rightarrow> error + ToolCall" where
  "convert_tool_call i tc =
     (case tc of
        JObj tcd \<Rightarrow>
          (case py_get tcd ''function'' (JObj []) of
             JObj func \<Rightarrow>
               (let arguments = py_get func ''arguments'' (JObj []);
                    arguments' = (case arguments of
                                    JObj a \<Rightarrow> JStr (json_dumps True arguments)
                                  | _ \<Rightarrow> arguments)
                in case (as_str (py_get tcd ''id'' (JStr (''call_'' @ str_nat i))),
                         as_str (py_get func ''name'' (JStr [])),
                         as_str arguments') of
                     (Some cid, Some nm, Some args) \<Rightarrow>
                       Inr \<lparr>tc_id = cid, tc_function = \<lparr>fn_name = nm, fn_arguments = args\<rparr>\<rparr>
                   | _ \<Rightarrow> Inl (ValidationError ''Input should be a valid string''))
           | _ \<Rightarrow> Inl (AttributeError ''object has no attribute get''))
      | _ \<Rightarrow> Inl (AttributeError ''object has no attribute get''))"



















section \<open>\<^verbatim>\<open>lesson_6/02_langgraph/graph.py\<close>\<close>

text \<open>
  \<^verbatim>\<open>str.lower()\<close> on code points below 256 and the substring test \<^verbatim>\<open>needle in text\<close>.
\<close>

definition lower_char :: "char \<Rightarrow> char" where
  "lower_char c =
     (let n = (of_char c :: nat)
      in if (65 \<le> n \<and> n \<le> 90) \<or> (192 \<le> n \<and> n \<le> 222 \<and> n \<noteq> 215) then char_of (n + 32) else c)"

definition str_lower :: "string \<Rightarrow> string" where
  "str_lower s = map lower_char s"

fun str_contains :: "string \<Rightarrow> string \<Rightarrow> bool" where
  "str_contains needle [] = (needle = [])"
| "str_contains needle (c # cs) = (starts_with needle (c # cs) \<or> str_contains needle cs)"

definition no_cache_indicators :: "string list" where
  "no_cache_indicators =
     [''none of the cities'', ''no cached'', ''not found'', ''cache is empty'', ''no data'',
      ''don'' @ [CHR 0x27] @ ''t have'', ''do not have'', ''haven'' @ [CHR 0x27] @ ''t'',
      ''have not'', ''missing'', ''CACHED: none'', ''cached: none'']"

definition found_indicators :: "string list" where
  "found_indicators =
     [''found'', ''cached data'', ''temperature'', [CHR 0xB0, CHR ''c''], ''celsius'', ''valid'']"

text \<open>
  What \<^verbatim>\<open>CheckCacheNode\<close> returns, without the \<^verbatim>\<open>messages\<close> entry (the agent's last
  message, passed through).
\<close>

record CheckCacheResult =
  cached_cities :: "string list"
  missing_cities :: "string list"
  needs_fetch :: bool

text \<open>
  \<^verbatim>\<open>CheckCacheNode\<close>, from the answer of the cache agent on: \<open>state_cities\<close> is the
  \<^verbatim>\<open>cities\<close> entry of the state (absent: \<open>None\<close>), \<open>response_content\<close> the text of the
  agent's last message.
\<close>

definition CheckCacheNode :: "string list option \<Rightarrow> string \<Rightarrow> CheckCacheResult" where
  "CheckCacheNode state_cities response_content =
     (let cities = (case state_cities of None \<Rightarrow> [] | Some cs \<Rightarrow> cs);
          response_lower = str_lower response_content;
          has_no_cache = list_ex (\<lambda>indicator. str_contains indicator response_lower) no_cache_indicators;
          has_cache = (list_ex (\<lambda>indicator. str_contains indicator response_lower) found_indicators
                        \<and> \<not> has_no_cache);
          (cached, missing) = (if has_no_cache \<or> \<not> has_cache then ([], cities) else (cities, []))
      in \<lparr>cached_cities = cached, missing_cities = missing, needs_fetch = (length missing > 0)\<rparr>)"

section \<open>Notions used to state the agents' properties\<close>

text \<open>The tool calls of a response message, none when the field is \<^verbatim>\<open>None\<close>.\<close>

definition calls_of :: "ChatCompletionMessage \<Rightarrow> ToolCall list" where
  "calls_of m = (case msg_tool_calls m of None \<Rightarrow> [] | Some tcs \<Rightarrow> tcs)"

text \<open>
  A tool call dispatches without an exception: \<^verbatim>\<open>json.loads\<close> parses its arguments and
  the tool backend answers the call.
\<close>

definition dispatch_ok ::
  "(string \<Rightarrow> error + 'a) \<Rightarrow> (string \<Rightarrow> 'a \<Rightarrow> error + json CallToolResult) \<Rightarrow> ToolCall \<Rightarrow> bool" where
  "dispatch_ok loads tool tc =
     (case loads (arguments_or_empty (fn_arguments (tc_function tc))) of
        Inl e \<Rightarrow> False
      | Inr function_args \<Rightarrow>
          (case tool (fn_name (tc_function tc)) function_args of Inl e \<Rightarrow> False | Inr r \<Rightarrow> True))"

text \<open>The conversation of the specification's example scenario.\<close>

definition conversation :: "message list" where
  "conversation =
     [RoleContent ''system'' ''You are a helpful AI assistant. '',
      RoleContent ''user'' ''What is the current weather in Bratislava?'']"

text \<open>
  Mock backends: an LLM that always asks for the weather tool with well-formed
  arguments, one that always asks for it with the arguments text \<^verbatim>\<open>{\<close>, an LLM that always
  asks for two tools at once, a tool backend that always answers with one text part, a
  weather service that always reports 21 degrees, and a tool backend whose responses
  carry a structured payload next to a text part.
\<close>

definition weather_call :: "string \<Rightarrow> ToolCall" where
  "weather_call args = \<lparr>tc_id = ''call_0'', tc_function = \<lparr>fn_name = ''get_weather'', fn_arguments = args\<rparr>\<rparr>"

definition bratislava :: json where
  "bratislava = JObj [(''city'', JStr ''Bratislava'')]"

definition llm_always_weather :: llm where
  "llm_always_weather i msgs =
     Inr \<lparr>msg_content = None, msg_tool_calls = Some [weather_call (json_dumps True bratislava)]\<rparr>"

definition llm_bad_arguments :: llm where
  "llm_bad_arguments i msgs = Inr \<lparr>msg_content = None, msg_tool_calls = Some [weather_call ''{'']\<rparr>"



definition tool_text :: "string \<Rightarrow> json \<Rightarrow> error + json CallToolResult" where
  "tool_text nm args = Inr \<lparr>content = [TextContent ''21''], structuredContent = None\<rparr>"


definition structured_response :: "json CallToolResult" where
  "structured_response =
     \<lparr>content = [TextContent ''21 degrees''],
      structuredContent = Some (JObj [(''temperature'', JInt 21)])\<rparr>"

definition remote_structured :: "ClientSession \<Rightarrow> string \<Rightarrow> json \<Rightarrow> error + json CallToolResult" where
  "remote_structured s t p = Inr structured_response"

text \<open>
  Two Ollama responses: one whose content is empty and whose reasoning channel is filled,
  one with both filled; and a backend tool call whose arguments are a dictionary.
\<close>

definition thinking_response :: "(string \<times> json) list" where
  "thinking_response =
     [(''model'', JStr ''qwen3:4b''),
      (''message'', JObj [(''role'', JStr ''assistant''), (''content'', JStr []),
                         (''thinking'', JStr ''The user asks for the weather.'')])]"












section \<open>Properties of the router\<close>

subsection \<open>Auxiliary facts\<close>

lemma map_of_register_tools:
  "map_of (register_tools r ts reg) t = (if t \<in> set ts then Some r else map_of reg t)"
  by (induction ts arbitrary: reg) (auto simp: update_conv')

lemma connections_connect_loop [simp]:
  "connections (connect_loop world cs self) = connections self"
  by (induction cs arbitrary: self) (auto split: prod.splits option.splits)

lemma name_MCPServerConnection_connect [simp]:
  "name (snd (MCPServerConnection_connect out conn)) = name conn"
  by (cases out) auto

lemma name_heap_connect_loop [simp]:
  "name (heap (connect_loop world cs self) r) = name (heap self r)"
proof (induction cs arbitrary: self)
  case Nil
  show ?case by simp
next
  case (Cons c cs)
  obtain nm r' where c: "c = (nm, r')" by (cases c)
  obtain e conn where m: "MCPServerConnection_connect (world nm) (heap self r') = (e, conn)"
    by (cases "MCPServerConnection_connect (world nm) (heap self r')")
  have "name conn = name (heap self r')"
    using name_MCPServerConnection_connect [of "world nm" "heap self r'"] m by simp
  then show ?case
    using Cons.IH c m by (cases e) auto
qed

lemma heap_connect_loop_other:
  "r \<notin> snd ` set cs \<Longrightarrow> heap (connect_loop world cs self) r = heap self r"
proof (induction cs arbitrary: self)
  case Nil
  show ?case by simp
next
  case (Cons c cs)
  then show ?case by (cases c) (auto split: prod.splits option.splits)
qed

lemma map_of_connect_loop:
  "map_of (tool_to_server (connect_loop world cs self)) t =
     (case rev (filter (\<lambda>(nm, r). reports world t nm) cs) of
        [] \<Rightarrow> map_of (tool_to_server self) t
      | (nm, r) # _ \<Rightarrow> Some r)"
proof (induction cs arbitrary: self)
  case Nil
  show ?case by simp
next
  case (Cons c cs)
  obtain nm r where c: "c = (nm, r)" by (cases c)
  show ?case
  proof (cases "world nm")
    case (ToolsListed ts)
    then show ?thesis
      using Cons.IH c
      by (auto simp: map_of_register_tools reports_def split: list.splits prod.splits)
  qed (use Cons.IH c in \<open>auto simp: reports_def split: list.splits prod.splits\<close>)
qed


lemma heap_connect_loop_member:
  "distinct (map snd cs) \<Longrightarrow> (nm, r) \<in> set cs \<Longrightarrow>
   heap (connect_loop world cs self) r = snd (MCPServerConnection_connect (world nm) (heap self r))"
proof (induction cs arbitrary: self)
  case Nil
  then show ?case by simp
next
  case (Cons c cs)
  obtain nm' r' where c: "c = (nm', r')" by (cases c)
  show ?case
  proof (cases "(nm, r) = (nm', r')")
    case True
    with Cons.prems c have "r \<notin> snd ` set cs" by auto
    then show ?thesis
      using True c by (auto simp: heap_connect_loop_other split: prod.splits option.splits)
  next
    case False
    with Cons.prems c have mem: "(nm, r) \<in> set cs" and d: "distinct (map snd cs)" and ne: "r \<noteq> r'"
      by (auto simp: image_iff)
    show ?thesis
      using Cons.IH [OF d mem] c ne by (auto split: prod.splits option.splits)
  qed
qed

lemma update_fresh: "k \<notin> fst ` set al \<Longrightarrow> AList.update k v al = al @ [(k, v)]"
  by (induction al) auto

lemma init_loop_wf:
  "distinct (map fst servers) \<Longrightarrow> fst ` set servers \<inter> fst ` set (connections self) = {} \<Longrightarrow>
   wf_router self \<Longrightarrow> \<forall>(nm, r) \<in> set (connections self). r < r0 \<Longrightarrow>
   wf_router (init_loop servers r0 self) \<and>
   map fst (connections (init_loop servers r0 self)) = map fst (connections self) @ map fst servers"
proof (induction servers arbitrary: r0 self)
  case Nil
  then show ?case by simp
next
  case (Cons s servers)
  obtain nm url where s: "s = (nm, url)" by (cases s)
  let ?self' = "self\<lparr>heap := (heap self)(r0 := MCPServerConnection_init nm url),
                     connections := AList.update nm r0 (connections self)\<rparr>"
  have fresh: "nm \<notin> fst ` set (connections self)" using Cons.prems(2) s by auto
  have c': "connections ?self' = connections self @ [(nm, r0)]"
    using fresh by (simp add: update_fresh)
  have d: "distinct (map fst servers)" using Cons.prems(1) by simp
  have disj: "fst ` set servers \<inter> fst ` set (connections ?self') = {}"
    using Cons.prems(1,2) s c' by (auto simp: image_iff)
  have r0_new: "r0 \<notin> snd ` set (connections self)"
    using Cons.prems(4) by force
  have wf': "wf_router ?self'"
    using Cons.prems(3) r0_new unfolding wf_router_def c'
    by (auto simp: MCPServerConnection_init_def image_iff)
  have lt': "\<forall>(nm, r) \<in> set (connections ?self'). r < Suc r0"
    using Cons.prems(4) unfolding c' by (auto simp: less_Suc_eq)
  from Cons.IH [OF d disj wf' lt'] show ?case
    using s c' by simp
qed

lemma init_loop_heap_old:
  "r < r0 \<Longrightarrow> heap (init_loop servers r0 self) r = heap self r"
  by (induction servers arbitrary: r0 self) auto

lemma init_loop_heap_new:
  "i < length servers \<Longrightarrow>
   heap (init_loop servers r0 self) (r0 + i) =
     MCPServerConnection_init (fst (servers ! i)) (snd (servers ! i))"
proof (induction servers arbitrary: r0 self i)
  case Nil
  then show ?case by simp
next
  case (Cons s servers)
  obtain nm url where s: "s = (nm, url)" by (cases s)
  show ?case
  proof (cases i)
    case 0
    then show ?thesis using s by (simp add: init_loop_heap_old)
  next
    case (Suc j)
    then have "j < length servers" using Cons.prems by simp
    from Cons.IH [OF this, of "Suc r0"] show ?thesis using s Suc by simp
  qed
qed

lemma init_loop_tool_to_server [simp]:
  "tool_to_server (init_loop servers r0 self) = tool_to_server self"
  by (induction servers arbitrary: r0 self) auto


lemma wf_router_init:
  "distinct (map fst servers) \<Longrightarrow>
   wf_router (MultiMCPClient_init getenv (Some servers)) \<and>
   map fst (connections (MultiMCPClient_init getenv (Some servers))) = map fst servers \<and>
   tool_to_server (MultiMCPClient_init getenv (Some servers)) = []"
  using init_loop_wf [of servers
      "\<lparr>heap = (\<lambda>r. MCPServerConnection_init [] []), connections = [], tool_to_server = []\<rparr>" 0]
  by (simp add: MultiMCPClient_init_def wf_router_def)

lemma filter_fst: "map fst (filter (\<lambda>(nm, r). P nm) cs) = filter P (map fst cs)"
  by (induction cs) auto

lemma owner_after_connect_loop:
  assumes "wf_router self"
  shows "get_server_for_tool (connect_loop world (connections self) self) t =
     (case last_reporting world t (map fst (connections self)) of
        None \<Rightarrow> get_server_for_tool self t
      | Some nm \<Rightarrow> Some nm)"
proof -
  let ?f = "filter (\<lambda>(nm, r). reports world t nm) (connections self)"
  have key: "map fst (rev ?f) = rev (filter (reports world t) (map fst (connections self)))"
    unfolding rev_map [symmetric] filter_fst ..
  show ?thesis
  proof (cases "rev ?f")
    case Nil
    then have "rev (filter (reports world t) (map fst (connections self))) = []"
      using key by simp
    then show ?thesis
      using Nil map_of_connect_loop [of world "connections self" self t]
      by (simp add: get_server_for_tool_def last_reporting_def split: option.splits)
  next
    case (Cons x xs)
    obtain nm r where x: "x = (nm, r)" by (cases x)
    have "(nm, r) \<in> set (rev ?f)" using Cons x by simp
    then have mem: "(nm, r) \<in> set (connections self)" by simp
    then have nm: "name (heap self r) = nm" using assms by (auto simp: wf_router_def)
    have "rev (filter (reports world t) (map fst (connections self))) = nm # map fst xs"
      using key Cons x by simp
    then show ?thesis
      using Cons x nm map_of_connect_loop [of world "connections self" self t]
      by (simp add: get_server_for_tool_def last_reporting_def split: option.splits)
  qed
qed


lemma owner_ref_after_connect_loop:
  assumes wf: "wf_router self"
    and lr: "last_reporting world t (map fst (connections self)) = Some nm"
  shows "\<exists>r. map_of (tool_to_server (connect_loop world (connections self) self)) t = Some r \<and>
             name (heap (connect_loop world (connections self) self) r) = nm \<and>
             session (heap (connect_loop world (connections self) self) r) = Some (ClientSession nm) \<and>
             connected (heap (connect_loop world (connections self) self) r)"
proof -
  let ?f = "filter (\<lambda>(nm, r). reports world t nm) (connections self)"
  have key: "map fst (rev ?f) = rev (filter (reports world t) (map fst (connections self)))"
    unfolding rev_map [symmetric] filter_fst ..
  from lr obtain rest where "rev (filter (reports world t) (map fst (connections self))) = nm # rest"
    by (auto simp: last_reporting_def split: list.splits)
  with key obtain r xs where f: "rev ?f = (nm, r) # xs"
    by (cases "rev ?f") auto
  then have "(nm, r) \<in> set (rev ?f)" by simp
  then have mem: "(nm, r) \<in> set (connections self)" and rep: "reports world t nm" by auto
  from rep obtain ts where w: "world nm = ToolsListed ts"
    by (auto simp: reports_def split: connect_outcome.splits)
  have nm: "name (heap self r) = nm" using wf mem by (auto simp: wf_router_def)
  have d: "distinct (map snd (connections self))" using wf by (simp add: wf_router_def)
  have h: "heap (connect_loop world (connections self) self) r
             = snd (MCPServerConnection_connect (world nm) (heap self r))"
    by (rule heap_connect_loop_member [OF d mem])
  have "map_of (tool_to_server (connect_loop world (connections self) self)) t = Some r"
    using f map_of_connect_loop [of world "connections self" self t] by simp
  then show ?thesis using h w nm by simp
qed

subsection \<open>Collisions between tool sources\<close>

text \<open>
  Claim C1, as stated, at the scenario of the specification: with source \<open>1\<close> connecting
  first, the owners are not \<open>{a:1, b:1, c:2}\<close>. The tool \<open>b\<close>, which both sources
  offer, belongs to source \<open>2\<close>, and a call of \<open>b\<close> goes to the session of source \<open>2\<close>.
\<close>

theorem C1_first_registered_wins_counterexample:
  "map (get_server_for_tool router12) [''a'', ''b'', ''c''] = [Some ''1'', Some ''2'', Some ''2'']
   \<and> get_server_for_tool router12 ''b'' \<noteq> Some ''1''
   \<and> snd (call_tool (\<lambda>s t p. Inr \<lparr>content = [], structuredContent = None :: unit option\<rparr>)
             router12 ''b'' ()) = [ClientSession ''2'']"
  by (simp add: router12_def MultiMCPClient_connect_def MultiMCPClient_init_def servers12_def
      world12_def get_server_for_tool_def MCPServerConnection_init_def call_tool_def Let_def)

text \<open>
  Claim C1, amended: collisions are resolved last-registered-wins. On a router
  built for servers with distinct names, after \<^verbatim>\<open>connect()\<close> every tool name belongs to the
  last source, in connection order, whose connect succeeded and that reported the name,
  and a call of that name makes its one remote call on the session of that source. A
  name that no connected source reported has no owner.
\<close>

theorem C1_last_registered_wins:
  assumes "distinct (map fst servers)"
  shows "let self = snd (MultiMCPClient_connect world (MultiMCPClient_init getenv (Some servers)))
         in get_server_for_tool self t = last_reporting world t (map fst servers) \<and>
            (\<forall>nm. last_reporting world t (map fst servers) = Some nm \<longrightarrow>
                  snd (call_tool remote self t p) = [ClientSession nm])"
proof -
  let ?c = "MultiMCPClient_init getenv (Some servers)"
  let ?c' = "connect_loop world (connections ?c) ?c"
  have wf: "wf_router ?c" and names: "map fst (connections ?c) = map fst servers"
    and empty: "tool_to_server ?c = []"
    using wf_router_init [OF assms, of getenv] by simp_all
  have c': "snd (MultiMCPClient_connect world ?c) = ?c'"
    by (simp add: MultiMCPClient_connect_def Let_def)
  have owner: "get_server_for_tool ?c' t = last_reporting world t (map fst servers)"
    using owner_after_connect_loop [OF wf, of world t] names empty
    by (simp add: get_server_for_tool_def split: option.splits)
  have dispatch: "snd (call_tool remote ?c' t p) = [ClientSession nm]"
    if "last_reporting world t (map fst servers) = Some nm" for nm
  proof -
    from owner_ref_after_connect_loop [OF wf, of world t nm] that names
    obtain r where "map_of (tool_to_server ?c') t = Some r"
      and "session (heap ?c' r) = Some (ClientSession nm)" by auto
    then show ?thesis
      by (simp add: call_tool_def Let_def split: sum.splits)
  qed
  show ?thesis
    unfolding Let_def c' using owner dispatch by blast
qed

theorem C1_last_registered_wins_witness:
  "distinct (map fst servers12) \<and>
   get_server_for_tool router12 ''b'' = Some ''2'' \<and>
   last_reporting world12 ''b'' (map fst servers12) = Some ''2'' \<and>
   snd (call_tool (\<lambda>s t p. Inr \<lparr>content = [], structuredContent = None :: unit option\<rparr>)
          router12 ''b'' ()) = [ClientSession ''2'']"
proof -
  have d: "distinct (map fst servers12)" by (simp add: servers12_def)
  have l: "last_reporting world12 ''b'' (map fst servers12) = Some ''2''"
    by (simp add: last_reporting_def reports_def servers12_def world12_def)
  show ?thesis
    using d l C1_last_registered_wins [OF d, of world12 "\<lambda>k. None" "''b''"
        "\<lambda>s t p. Inr \<lparr>content = [], structuredContent = None :: unit option\<rparr>" "()"]
    by (simp add: router12_def Let_def)
qed

subsection \<open>Dispatch of unknown and disconnected tools\<close>

text \<open>
  Claim C3: \<^verbatim>\<open>call_tool\<close> returns an error string, and makes no remote call, for a
  tool name without registry entry (the string names the tool) and for an entry whose
  owning connection has no session (the string names the server).
\<close>

theorem C3_call_tool_error_strings:
  "(map_of (tool_to_server self) tool_name = None \<longrightarrow>
      call_tool remote self tool_name parameters =
        (''Error: Tool '' @ quoted tool_name @ '' not found on any connected server'', []))
   \<and> (\<forall>r. map_of (tool_to_server self) tool_name = Some r \<and> session (heap self r) = None \<longrightarrow>
      call_tool remote self tool_name parameters =
        (''Error: Server '' @ quoted (name (heap self r)) @ '' is not connected'', []))"
  by (simp add: call_tool_def Let_def)

theorem C3_call_tool_error_strings_witness:
  "map_of (tool_to_server router12) ''d'' = None \<and>
   call_tool remote_ok router12 ''d'' () =
     (''Error: Tool '' @ quoted ''d'' @ '' not found on any connected server'', []) \<and>
   map_of (tool_to_server (MultiMCPClient_disconnect router12)) ''b'' = Some 1 \<and>
   session (heap (MultiMCPClient_disconnect router12) 1) = None \<and>
   call_tool remote_ok (MultiMCPClient_disconnect router12) ''b'' () =
     (''Error: Server '' @ quoted ''2'' @ '' is not connected'', [])"
proof -
  have r: "tool_to_server router12 = [(''a'', 0), (''b'', 1), (''c'', 1)]"
    by (simp add: router12_def MultiMCPClient_connect_def MultiMCPClient_init_def servers12_def
        world12_def MCPServerConnection_init_def Let_def)
  have a: "map_of (tool_to_server router12) ''d'' = None" by (simp add: r)
  have b: "map_of (tool_to_server (MultiMCPClient_disconnect router12)) ''b'' = Some 1"
    by (simp add: router12_def MultiMCPClient_connect_def MultiMCPClient_init_def servers12_def
        world12_def MCPServerConnection_init_def Let_def MultiMCPClient_disconnect_def
        MCPServerConnection_disconnect_def)
  have c: "session (heap (MultiMCPClient_disconnect router12) 1) = None"
    by (simp add: router12_def MultiMCPClient_connect_def MultiMCPClient_init_def servers12_def
        world12_def MCPServerConnection_init_def Let_def MultiMCPClient_disconnect_def
        MCPServerConnection_disconnect_def)
  have n: "name (heap (MultiMCPClient_disconnect router12) 1) = ''2''"
    by (simp add: router12_def MultiMCPClient_connect_def MultiMCPClient_init_def servers12_def
        world12_def MCPServerConnection_init_def Let_def MultiMCPClient_disconnect_def
        MCPServerConnection_disconnect_def)
  show ?thesis
    using a b c n
      C3_call_tool_error_strings [of router12 "''d''" remote_ok "()"]
      C3_call_tool_error_strings [of "MultiMCPClient_disconnect router12" "''b''" remote_ok "()"]
    by simp
qed

subsection \<open>Lifetime of registry entries\<close>

lemma tool_to_server_disconnect_loop [simp]:
  "tool_to_server (disconnect_loop cs self) = tool_to_server self"
  by (induction cs arbitrary: self) (auto split: prod.splits)

lemma connections_disconnect_loop [simp]:
  "connections (disconnect_loop cs self) = connections self"
  by (induction cs arbitrary: self) (auto split: prod.splits)

lemma disconnect_loop_heap:
  "heap (disconnect_loop cs self) r =
     (if r \<in> snd ` set cs then MCPServerConnection_disconnect (heap self r) else heap self r)"
proof (induction cs arbitrary: self)
  case Nil
  show ?case by simp
next
  case (Cons c cs)
  obtain nm r' where c: "c = (nm, r')" by (cases c)
  show ?case using Cons.IH c
    by (auto simp: MCPServerConnection_disconnect_def)
qed

lemma keys_register_tools:
  "fst ` set (register_tools r ts reg) = fst ` set reg \<union> set ts"
  by (induction ts arbitrary: reg) (simp_all add: dom_update Un_commute Un_left_commute)

lemma snd_MultiMCPClient_connect:
  "snd (MultiMCPClient_connect world self) = connect_loop world (connections self) self"
  by (simp add: MultiMCPClient_connect_def Let_def)

lemma keys_connect_loop:
  "fst ` set (tool_to_server self) \<subseteq> fst ` set (tool_to_server (connect_loop world cs self))"
proof (induction cs arbitrary: self)
  case Nil
  show ?case by simp
next
  case (Cons c cs)
  obtain nm r where c: "c = (nm, r)" by (cases c)
  obtain e conn where m: "MCPServerConnection_connect (world nm) (heap self r) = (e, conn)"
    by (cases "MCPServerConnection_connect (world nm) (heap self r)")
  show ?case
  proof (cases e)
    case None
    let ?self' = "self\<lparr>heap := (heap self)(r := conn),
                  tool_to_server := register_tools r (tools conn) (tool_to_server self)\<rparr>"
    have "fst ` set (tool_to_server self) \<subseteq> fst ` set (tool_to_server ?self')"
      by (simp add: keys_register_tools)
    also have "\<dots> \<subseteq> fst ` set (tool_to_server (connect_loop world cs ?self'))"
      by (rule Cons.IH)
    finally show ?thesis using c m None by simp
  next
    case (Some err)
    then show ?thesis using c m Cons.IH [of "self\<lparr>heap := (heap self)(r := conn)\<rparr>"] by simp
  qed
qed

lemma keys_run_ops:
  "fst ` set (tool_to_server self) \<subseteq> fst ` set (tool_to_server (run_ops ops self))"
proof (induction ops arbitrary: self)
  case Nil
  show ?case by simp
next
  case (Cons op ops)
  show ?case
  proof (cases op)
    case (Connect world)
    have "fst ` set (tool_to_server self)
            \<subseteq> fst ` set (tool_to_server (snd (MultiMCPClient_connect world self)))"
      by (simp add: snd_MultiMCPClient_connect keys_connect_loop)
    also have "\<dots> \<subseteq> fst ` set (tool_to_server (run_ops ops (snd (MultiMCPClient_connect world self))))"
      by (rule Cons.IH)
    finally show ?thesis using Connect by simp
  next
    case Disconnect
    then show ?thesis
      using Cons.IH [of "MultiMCPClient_disconnect self"]
      by (simp add: MultiMCPClient_disconnect_def)
  qed
qed

text \<open>
  Claim C4, as stated, after \<^verbatim>\<open>connect()\<close> and \<^verbatim>\<open>disconnect()\<close> on the router of the
  specification's scenario: the tool \<open>a\<close> still has its registry entry, and the
  connection that owns it is not connected.
\<close>

theorem C4_entries_iff_connected_counterexample:
  "map_of (tool_to_server (run_ops [Connect world12, Disconnect]
             (MultiMCPClient_init (\<lambda>k. None) (Some servers12)))) ''a'' = Some 0
   \<and> \<not> connected (heap (run_ops [Connect world12, Disconnect]
             (MultiMCPClient_init (\<lambda>k. None) (Some servers12))) 0)"
  by (simp add: MultiMCPClient_connect_def MultiMCPClient_init_def servers12_def
      world12_def MCPServerConnection_init_def Let_def MultiMCPClient_disconnect_def
      MCPServerConnection_disconnect_def)

text \<open>
  Claim C4, amended: registry entries outlive the connected state of their owner. No
  sequence of \<^verbatim>\<open>connect()\<close> and \<^verbatim>\<open>disconnect()\<close> calls removes a tool name from the
  registry; \<^verbatim>\<open>disconnect()\<close> leaves the registry as it is and leaves every connection of
  the router not connected; an entry whose owner was connected is invalidated only at
  dispatch, where \<^verbatim>\<open>call_tool\<close> answers with the error string that names the server.
\<close>

theorem C4_registry_entries_outlive_connections:
  "fst ` set (tool_to_server self) \<subseteq> fst ` set (tool_to_server (run_ops ops self))
   \<and> tool_to_server (MultiMCPClient_disconnect self) = tool_to_server self
   \<and> (\<forall>(nm, r) \<in> set (connections self). \<not> connected (heap (MultiMCPClient_disconnect self) r))
   \<and> (\<forall>t r. map_of (tool_to_server self) t = Some r \<and> r \<in> snd ` set (connections self)
               \<and> connected (heap self r) \<longrightarrow>
          call_tool remote (MultiMCPClient_disconnect self) t p =
            (''Error: Server '' @ quoted (name (heap self r)) @ '' is not connected'', []))"
proof -
  have 1: "fst ` set (tool_to_server self) \<subseteq> fst ` set (tool_to_server (run_ops ops self))"
    by (rule keys_run_ops)
  have 2: "tool_to_server (MultiMCPClient_disconnect self) = tool_to_server self"
    by (simp add: MultiMCPClient_disconnect_def)
  have 3: "\<forall>(nm, r) \<in> set (connections self). \<not> connected (heap (MultiMCPClient_disconnect self) r)"
  proof (clarify)
    fix nm r
    assume "(nm, r) \<in> set (connections self)" "connected (heap (MultiMCPClient_disconnect self) r)"
    moreover from this(1) have "r \<in> snd ` set (connections self)" by force
    ultimately show False
      by (simp add: MultiMCPClient_disconnect_def disconnect_loop_heap
          MCPServerConnection_disconnect_def split: if_splits)
  qed
  have 4: "call_tool remote (MultiMCPClient_disconnect self) t p =
            (''Error: Server '' @ quoted (name (heap self r)) @ '' is not connected'', [])"
    if "map_of (tool_to_server self) t = Some r" "r \<in> snd ` set (connections self)"
      "connected (heap self r)" for t r
    using that
    by (simp add: call_tool_def Let_def MultiMCPClient_disconnect_def disconnect_loop_heap
        MCPServerConnection_disconnect_def)
  show ?thesis using 1 2 3 4 by blast
qed

theorem C4_registry_entries_outlive_connections_witness:
  "map_of (tool_to_server router12) ''a'' = Some 0 \<and> 0 \<in> snd ` set (connections router12)
   \<and> connected (heap router12 0)
   \<and> call_tool remote_ok (MultiMCPClient_disconnect router12) ''a'' () =
        (''Error: Server '' @ quoted ''1'' @ '' is not connected'', [])
   \<and> \<not> connected (heap (MultiMCPClient_disconnect router12) 0)
   \<and> ''a'' \<in> fst ` set (tool_to_server (run_ops [Disconnect] router12))"
proof -
  have r: "tool_to_server router12 = [(''a'', 0), (''b'', 1), (''c'', 1)]"
    and c: "connections router12 = [(''1'', 0), (''2'', 1)]"
    and h: "connected (heap router12 0)" and n: "name (heap router12 0) = ''1''"
    by (simp_all add: router12_def MultiMCPClient_connect_def MultiMCPClient_init_def servers12_def
        world12_def MCPServerConnection_init_def Let_def)
  have a: "map_of (tool_to_server router12) ''a'' = Some 0" by (simp add: r)
  have b: "0 \<in> snd ` set (connections router12)" by (simp add: c)
  have k: "''a'' \<in> fst ` set (tool_to_server router12)" by (simp add: r)
  have m: "(''1'', 0) \<in> set (connections router12)" by (simp add: c)
  note th = C4_registry_entries_outlive_connections [of router12 "[Disconnect]" remote_ok "()"]
  from th a b h n have "call_tool remote_ok (MultiMCPClient_disconnect router12) ''a'' () =
        (''Error: Server '' @ quoted ''1'' @ '' is not connected'', [])"
    by (metis (no_types, lifting))
  moreover from th m have "\<not> connected (heap (MultiMCPClient_disconnect router12) 0)"
    by fastforce
  moreover from th k have "''a'' \<in> fst ` set (tool_to_server (run_ops [Disconnect] router12))"
    by blast
  ultimately show ?thesis using a b h by blast
qed

subsection \<open>Failure of the router's connect\<close>

text \<open>
  \<^verbatim>\<open>connect()\<close> raises exactly when the registry is empty after the pass; whether a
  source is connected is not what it tests.
\<close>

lemma connect_raises_iff_registry_empty:
  "fst (MultiMCPClient_connect world self) \<noteq> None \<longleftrightarrow>
     tool_to_server (snd (MultiMCPClient_connect world self)) = []"
  by (simp add: MultiMCPClient_connect_def Let_def)

text \<open>
  Claim C7 at a router whose only source connects and offers no tool: \<^verbatim>\<open>connect()\<close>
  raises the error "Failed to connect to any MCP server" although the source is connected.
  In the other direction, on a router that still holds the entries of an earlier pass, a
  pass in which every source fails raises nothing although no source is connected.
\<close>

theorem C7_connect_raises_although_a_source_is_connected:
  "fst (MultiMCPClient_connect world_no_tools (MultiMCPClient_init (\<lambda>k. None) (Some servers_one)))
     = Some (RuntimeError ''Failed to connect to any MCP server'')
   \<and> connections (snd (MultiMCPClient_connect world_no_tools
                          (MultiMCPClient_init (\<lambda>k. None) (Some servers_one)))) = [(''weather'', 0)]
   \<and> connected (heap (snd (MultiMCPClient_connect world_no_tools
                          (MultiMCPClient_init (\<lambda>k. None) (Some servers_one)))) 0)
   \<and> fst (MultiMCPClient_connect (\<lambda>nm. HttpEnterRaises (Exception ''connection refused''))
            (MultiMCPClient_disconnect router12)) = None
   \<and> list_all (\<lambda>(nm, r). \<not> connected
         (heap (snd (MultiMCPClient_connect (\<lambda>nm. HttpEnterRaises (Exception ''connection refused''))
            (MultiMCPClient_disconnect router12))) r)) (connections router12)"
  by (simp add: MultiMCPClient_connect_def MultiMCPClient_init_def servers_one_def servers12_def
      world12_def router12_def
      world_no_tools_def MCPServerConnection_init_def Let_def MultiMCPClient_disconnect_def
      MCPServerConnection_disconnect_def)

section \<open>Properties of the JSON text representation\<close>

text \<open>
  Parsing the serialisation of a value gives the value back: first for strings, then for
  integers, then for all values by induction along the serialiser.
\<close>

lemma dquote_backslash [simp]: "dquote \<noteq> backslash" "backslash \<noteq> dquote"
  by (simp_all add: dquote_def backslash_def)

lemma hex_val_hex_char: "d < 16 \<Longrightarrow> hex_val (hex_char d) = Some d"
proof -
  assume "d < 16"
  then consider "d < 10" | "10 \<le> d" "d < 16" by linarith
  then show ?thesis
  proof cases
    case 1
    then show ?thesis by (simp add: hex_val_def hex_char_def Let_def)
  next
    case 2
    then show ?thesis by (simp add: hex_val_def hex_char_def Let_def)
  qed
qed

lemma of_char_lt_256: "(of_char (c::char) :: nat) < 256"
  by (rule nat_of_char_less_256)

lemma hex4_u_escape:
  "hex4 CHR ''0'' CHR ''0'' (hex_char (of_char c div 16)) (hex_char (of_char c mod 16)) = Some (of_char c)"
proof -
  have "(of_char c :: nat) div 16 < 16" using of_char_lt_256 [of c] by (simp add: less_mult_imp_div_less)
  then have 1: "hex_val (hex_char (of_char c div 16)) = Some (of_char c div 16)"
    by (rule hex_val_hex_char)
  have 2: "hex_val (hex_char (of_char c mod 16)) = Some (of_char c mod 16)"
    by (rule hex_val_hex_char) simp
  have 0: "hex_val CHR ''0'' = Some 0" by (simp add: hex_val_def)
  show ?thesis by (simp add: hex4_def 0 1 2)
qed

lemma scanstring_u_escape:
  "scanstring (u_escape c @ s) acc = scanstring s (acc @ [c])"
  using hex4_u_escape [of c] of_char_lt_256 [of c]
  by (simp add: u_escape_def)

lemma scanstring_escape_char:
  "scanstring (escape_char ea c @ s) acc = scanstring s (acc @ [c])"
proof -
  consider (q) "c = dquote" | (b) "c = backslash"
    | (n) "c = CHR 0x0A" | (r) "c = CHR 0x0D" | (t) "c = CHR 0x09" | (bs) "c = CHR 0x08" | (f) "c = CHR 0x0C"
    | (u) "c \<noteq> dquote" "c \<noteq> backslash" "c \<noteq> CHR 0x0A" "c \<noteq> CHR 0x0D" "c \<noteq> CHR 0x09"
          "c \<noteq> CHR 0x08" "c \<noteq> CHR 0x0C" "(of_char c :: nat) < 0x20 \<or> (ea \<and> (of_char c :: nat) > 0x7E)"
    | (p) "c \<noteq> dquote" "c \<noteq> backslash" "\<not> (of_char c :: nat) < 0x20" "\<not> (ea \<and> (of_char c :: nat) > 0x7E)"
    by blast
  then show ?thesis
  proof cases
    case q
    then show ?thesis by (simp add: escape_char_def unescape_def dquote_def backslash_def)
  next
    case b
    then show ?thesis by (simp add: escape_char_def unescape_def dquote_def backslash_def)
  next
    case n
    then show ?thesis by (simp add: escape_char_def unescape_def dquote_def backslash_def)
  next
    case r
    then show ?thesis by (simp add: escape_char_def unescape_def dquote_def backslash_def)
  next
    case t
    then show ?thesis by (simp add: escape_char_def unescape_def dquote_def backslash_def)
  next
    case bs
    then show ?thesis by (simp add: escape_char_def unescape_def dquote_def backslash_def)
  next
    case f
    then show ?thesis by (simp add: escape_char_def unescape_def dquote_def backslash_def)
  next
    case u
    then have "escape_char ea c = u_escape c" by (auto simp: escape_char_def)
    then show ?thesis by (simp add: scanstring_u_escape)
  next
    case p
    then have "escape_char ea c = [c]" by (auto simp: escape_char_def)
    then show ?thesis using p by simp
  qed
qed

lemma scanstring_escaped:
  "scanstring (concat (map (escape_char ea) s) @ dquote # rest) acc = Inr (acc @ s, rest)"
proof (induction s arbitrary: acc)
  case Nil
  show ?case by simp
next
  case (Cons c s)
  have "scanstring (concat (map (escape_char ea) (c # s)) @ dquote # rest) acc
          = scanstring (escape_char ea c @ (concat (map (escape_char ea) s) @ dquote # rest)) acc"
    by simp
  also have "\<dots> = scanstring (concat (map (escape_char ea) s) @ dquote # rest) (acc @ [c])"
    by (rule scanstring_escape_char)
  also have "\<dots> = Inr ((acc @ [c]) @ s, rest)" by (rule Cons.IH)
  finally show ?case by simp
qed


declare str_nat.simps [simp del]

lemma of_char_digit_char: "d < 10 \<Longrightarrow> (of_char (digit_char d) :: nat) = 48 + d"
  by (simp add: digit_char_def)

lemma is_digit_digit_char: "d < 10 \<Longrightarrow> is_digit (digit_char d)"
  by (simp add: is_digit_def of_char_digit_char)

lemma digit_val_digit_char: "d < 10 \<Longrightarrow> digit_val (digit_char d) = d"
  by (simp add: digit_val_def of_char_digit_char)

lemma digit_char_eq_zero: "d < 10 \<Longrightarrow> digit_char d = CHR ''0'' \<longleftrightarrow> d = 0"
proof -
  assume d: "d < 10"
  have "digit_char d = CHR ''0'' \<longleftrightarrow> (of_char (digit_char d) :: nat) = of_char CHR ''0''"
    by (metis of_char_eq_iff)
  then show ?thesis using d by (simp add: of_char_digit_char)
qed

lemma str_nat_digits: "c \<in> set (str_nat n) \<Longrightarrow> is_digit c"
proof (induction n arbitrary: c rule: str_nat.induct)
  case (1 n)
  show ?case
  proof (cases "n < 10")
    case True
    then show ?thesis using "1.prems" by (simp add: str_nat.simps [of n] is_digit_digit_char)
  next
    case False
    then show ?thesis using "1.prems" "1.IH"
      by (auto simp: str_nat.simps [of n] is_digit_digit_char)
  qed
qed

lemma nat_of_digits_snoc: "nat_of_digits (ds @ [c]) = nat_of_digits ds * 10 + digit_val c"
  by (simp add: nat_of_digits_def)

lemma nat_of_digits_str_nat: "nat_of_digits (str_nat n) = n"
proof (induction n rule: str_nat.induct)
  case (1 n)
  show ?case
  proof (cases "n < 10")
    case True
    then show ?thesis
      by (simp add: str_nat.simps [of n] nat_of_digits_def digit_val_digit_char)
  next
    case False
    then show ?thesis using "1.IH"
      by (simp add: str_nat.simps [of n] nat_of_digits_snoc digit_val_digit_char)
  qed
qed

lemma str_nat_hd: "\<exists>d ds. str_nat n = digit_char d # ds \<and> d < 10 \<and> (d = 0 \<longrightarrow> n = 0)"
proof (induction n rule: str_nat.induct)
  case (1 n)
  show ?case
  proof (cases "n < 10")
    case True
    then have "str_nat n = digit_char n # [] \<and> n < 10 \<and> (n = 0 \<longrightarrow> n = 0)"
      by (simp add: str_nat.simps [of n])
    then show ?thesis by blast
  next
    case False
    with "1.IH" obtain d ds where "str_nat (n div 10) = digit_char d # ds" "d < 10"
      "d = 0 \<longrightarrow> n div 10 = 0" by blast
    moreover have "n div 10 \<noteq> 0" using False by simp
    ultimately have "str_nat n = digit_char d # (ds @ [digit_char (n mod 10)]) \<and> d < 10
        \<and> (d = 0 \<longrightarrow> n = 0)"
      using False by (simp add: str_nat.simps [of n])
    then show ?thesis by blast
  qed
qed

lemma takeWhile_digits:
  "ok_rest rest \<Longrightarrow> takeWhile is_digit (str_nat n @ rest) = str_nat n"
proof -
  assume "ok_rest rest"
  then have "takeWhile is_digit rest = []"
    by (cases rest) (auto simp: ok_rest_def is_digit_def)
  then show ?thesis using str_nat_digits [of _ n]
    by (simp add: takeWhile_append2)
qed

lemma dropWhile_digits:
  "ok_rest rest \<Longrightarrow> dropWhile is_digit (str_nat n @ rest) = rest"
proof -
  assume "ok_rest rest"
  then have "dropWhile is_digit rest = rest"
    by (cases rest) (auto simp: ok_rest_def is_digit_def)
  then show ?thesis using str_nat_digits [of _ n]
    by (simp add: dropWhile_append2)
qed

lemma scan_int_nat:
  assumes "ok_rest rest"
  shows "scan_int (str_nat n @ rest) = Some (int n, rest)"
proof -
  obtain d ds where s: "str_nat n = digit_char d # ds" and d: "d < 10" and z: "d = 0 \<longrightarrow> n = 0"
    using str_nat_hd by blast
  have minus: "digit_char d \<noteq> CHR ''-''"
    using is_digit_digit_char [OF d] by (auto simp: is_digit_def)
  show ?thesis
  proof (cases "d = 0")
    case True
    then have "n = 0" using z by simp
    then have "str_nat n = ''0''"
      using digit_char_eq_zero [of 0] by (simp add: str_nat.simps [of 0])
    then show ?thesis using \<open>n = 0\<close> by (simp add: scan_int_def)
  next
    case False
    then have nz: "digit_char d \<noteq> CHR ''0''" using digit_char_eq_zero [OF d] by simp
    have "scan_int (digit_char d # ds @ rest) =
            Some (int (nat_of_digits (takeWhile is_digit (digit_char d # ds @ rest))),
                  dropWhile is_digit (digit_char d # ds @ rest))"
      using minus nz is_digit_digit_char [OF d] by (simp add: scan_int_def del: takeWhile.simps dropWhile.simps)
    moreover have "nat_of_digits (digit_char d # ds) = n"
      using nat_of_digits_str_nat [of n] s by simp
    ultimately show ?thesis
      using s takeWhile_digits [OF assms, of n] dropWhile_digits [OF assms, of n]
      by (simp del: takeWhile.simps dropWhile.simps)
  qed
qed

lemma scan_int_str_int:
  assumes "ok_rest rest"
  shows "scan_int (str_int i @ rest) = Some (i, rest)"
proof (cases "i < 0")
  case False
  then show ?thesis using scan_int_nat [OF assms, of "nat i"] by (simp add: str_int_def)
next
  case True
  let ?n = "nat (- i)"
  obtain d ds where s: "str_nat ?n = digit_char d # ds" and d: "d < 10" and z: "d = 0 \<longrightarrow> ?n = 0"
    using str_nat_hd by blast
  have "?n \<noteq> 0" using True by simp
  then have "d \<noteq> 0" using z by auto
  then have nz: "digit_char d \<noteq> CHR ''0''" using digit_char_eq_zero [OF d] by simp
  have "scan_int (CHR ''-'' # digit_char d # ds @ rest) =
          Some (- int (nat_of_digits (takeWhile is_digit (digit_char d # ds @ rest))),
                dropWhile is_digit (digit_char d # ds @ rest))"
    using nz is_digit_digit_char [OF d] by (simp add: scan_int_def del: takeWhile.simps dropWhile.simps)
  moreover have "nat_of_digits (digit_char d # ds) = ?n"
    using nat_of_digits_str_nat [of ?n] s by simp
  ultimately show ?thesis
    using True s takeWhile_digits [OF assms, of ?n] dropWhile_digits [OF assms, of ?n]
    by (simp add: str_int_def del: takeWhile.simps dropWhile.simps)
qed


lemma value_start_not_ws: "value_start c \<Longrightarrow> \<not> is_ws c"
  by (auto simp: value_start_def is_ws_def dquote_def is_digit_def)

lemma value_start_not_close: "value_start c \<Longrightarrow> c \<noteq> CHR '']''"
  by (auto simp: value_start_def dquote_def is_digit_def)

lemma skip_ws_start: "\<not> is_ws c \<Longrightarrow> skip_ws (c # s) = c # s"
  by (simp add: skip_ws_def)

lemma skip_ws_space: "skip_ws (CHR '' '' # s) = skip_ws s"
  by (simp add: skip_ws_def is_ws_def)

lemma str_int_hd: "\<exists>c cs. str_int i = c # cs \<and> (c = CHR ''-'' \<or> is_digit c)"
proof -
  obtain d ds where "str_nat (nat i) = digit_char d # ds" "d < 10" using str_nat_hd by blast
  then show ?thesis by (auto simp: str_int_def is_digit_digit_char)
qed

lemma json_dumps_hd: "\<exists>c cs. json_dumps ea j = c # cs \<and> value_start c"
proof (cases j)
  case (JInt i)
  then show ?thesis using str_int_hd [of i] by (auto simp: value_start_def)
qed (auto simp: value_start_def encode_basestring_def)

lemma dumps_items_hd: "xs \<noteq> [] \<Longrightarrow> \<exists>c cs. dumps_items ea xs = c # cs \<and> value_start c"
proof (cases xs)
  case Nil
  assume "xs \<noteq> []"
  with Nil show ?thesis by simp
next
  case (Cons x ys)
  obtain c cs where "json_dumps ea x = c # cs" "value_start c" using json_dumps_hd by blast
  then show ?thesis using Cons by (cases ys) auto
qed

lemma dumps_members_hd: "kvs \<noteq> [] \<Longrightarrow> \<exists>cs. dumps_members ea kvs = dquote # cs"
proof (cases kvs)
  case Nil
  assume "kvs \<noteq> []"
  with Nil show ?thesis by simp
next
  case (Cons kv rest)
  obtain k v where "kv = (k, v)" by (cases kv)
  then show ?thesis using Cons by (cases rest) (auto simp: encode_basestring_def)
qed

lemma skip_ws_json_dumps: "skip_ws (json_dumps ea j @ r) = json_dumps ea j @ r"
  using json_dumps_hd [of ea j] by (auto simp: skip_ws_start value_start_not_ws)

lemma skip_ws_dumps_items: "xs \<noteq> [] \<Longrightarrow> skip_ws (dumps_items ea xs @ r) = dumps_items ea xs @ r"
  using dumps_items_hd [of xs ea] by (auto simp: skip_ws_start value_start_not_ws)

lemma skip_ws_dumps_members: "kvs \<noteq> [] \<Longrightarrow> skip_ws (dumps_members ea kvs @ r) = dumps_members ea kvs @ r"
  using dumps_members_hd [of kvs ea] by (auto simp: skip_ws_start is_ws_def dquote_def)

lemma scan_array_last:
  "scan_once n s = Inr (v, CHR '']'' # r) \<Longrightarrow> scan_array (Suc n) s acc = Inr (acc @ [v], r)"
  by (simp add: skip_ws_def is_ws_def)

lemma scan_array_more:
  "scan_once n s = Inr (v, CHR '','' # CHR '' '' # r) \<Longrightarrow>
   scan_array (Suc n) s acc = scan_array n (skip_ws r) (acc @ [v])"
  by (simp add: skip_ws_def is_ws_def)

lemma scan_object_last:
  "scanstring cs [] = Inr (key, CHR '':'' # CHR '' '' # r2) \<Longrightarrow>
   scan_once n (skip_ws r2) = Inr (v, CHR ''}'' # r4) \<Longrightarrow>
   scan_object (Suc n) (dquote # cs) acc = Inr (acc @ [(key, v)], r4)"
  by (simp add: skip_ws_def is_ws_def)

lemma scan_object_more:
  "scanstring cs [] = Inr (key, CHR '':'' # CHR '' '' # r2) \<Longrightarrow>
   scan_once n (skip_ws r2) = Inr (v, CHR '','' # CHR '' '' # r4) \<Longrightarrow>
   scan_object (Suc n) (dquote # cs) acc = scan_object n (skip_ws r4) (acc @ [(key, v)])"
  by (simp add: skip_ws_def is_ws_def)

lemma scan_once_array:
  "value_start d \<Longrightarrow> scan_array n (d # r) [] = Inr (vs, r') \<Longrightarrow>
   scan_once (Suc n) (CHR ''['' # d # r) = Inr (JArr vs, r')"
  using value_start_not_ws [of d] value_start_not_close [of d]
  by (simp add: skip_ws_start dquote_def)

lemma scan_once_object:
  "scan_object n (dquote # r) [] = Inr (pairs, r') \<Longrightarrow>
   scan_once (Suc n) (CHR ''{'' # dquote # r) = Inr (JObj (dict_of_pairs pairs), r')"
  by (simp add: skip_ws_def is_ws_def dquote_def)

lemma scan_once_empty_array: "scan_once (Suc n) (CHR ''['' # CHR '']'' # r) = Inr (JArr [], r)"
  by (simp add: skip_ws_def is_ws_def dquote_def)

lemma scan_once_empty_object: "scan_once (Suc n) (CHR ''{'' # CHR ''}'' # r) = Inr (JObj [], r)"
  by (simp add: skip_ws_def is_ws_def dquote_def)

lemma scan_once_null: "scan_once (Suc n) (''null'' @ r) = Inr (JNull, r)"
  by (simp add: starts_with_def dquote_def)

lemma scan_once_true: "scan_once (Suc n) (''true'' @ r) = Inr (JBool True, r)"
  by (simp add: starts_with_def dquote_def)

lemma scan_once_false: "scan_once (Suc n) (''false'' @ r) = Inr (JBool False, r)"
  by (simp add: starts_with_def dquote_def)

lemma scan_once_string:
  "scan_once (Suc n) (encode_basestring ea s @ r) = Inr (JStr s, r)"
  by (simp add: encode_basestring_def scanstring_escaped)

lemma ok_rest_no_float: "ok_rest r \<Longrightarrow> \<not> has_frac r \<and> \<not> has_exp r"
  by (cases r) (auto simp: ok_rest_def has_frac_def has_exp_def split: list.splits)

lemma scan_once_int:
  assumes "ok_rest r"
  shows "scan_once (Suc n) (str_int i @ r) = Inr (JInt i, r)"
proof -
  obtain c cs where s: "str_int i = c # cs" and c: "c = CHR ''-'' \<or> is_digit c"
    using str_int_hd by blast
  have ne: "c \<noteq> dquote" "c \<noteq> CHR ''{''" "c \<noteq> CHR ''[''" "c \<noteq> CHR ''n''" "c \<noteq> CHR ''t''" "c \<noteq> CHR ''f''"
    using c by (auto simp: is_digit_def dquote_def)
  have si: "scan_int (c # cs @ r) = Some (i, r)"
    using scan_int_str_int [OF assms, of i] s by simp
  show ?thesis
    using ne si ok_rest_no_float [OF assms]
    by (simp add: s starts_with_def)
qed


lemma dict_of_pairs_aux:
  "distinct (map fst (d @ pairs)) \<Longrightarrow>
   foldl (\<lambda>d (k, v). AList.update k v d) d pairs = d @ pairs"
proof (induction pairs arbitrary: d)
  case Nil
  show ?case by simp
next
  case (Cons p pairs)
  obtain k v where p: "p = (k, v)" by (cases p)
  have fresh: "k \<notin> fst ` set d" using Cons.prems p by auto
  have upd: "AList.update k v d = d @ [(k, v)]"
    using fresh by (induction d) auto
  have "distinct (map fst ((d @ [(k, v)]) @ pairs))" using Cons.prems p by simp
  from Cons.IH [OF this] show ?case using p upd by simp
qed

lemma dict_of_pairs_distinct: "distinct (map fst pairs) \<Longrightarrow> dict_of_pairs pairs = pairs"
  using dict_of_pairs_aux [of "[]" pairs] by (simp add: dict_of_pairs_def)

lemma ok_rest_simps [simp]:
  "ok_rest (CHR '','' # r)" "ok_rest (CHR '']'' # r)" "ok_rest (CHR ''}'' # r)" "ok_rest []"
  by (simp_all add: ok_rest_def)

declare scan_once.simps [simp del] scan_array.simps [simp del] scan_object.simps [simp del]

lemma scan_roundtrip_aux:
  "(wf_json j \<longrightarrow> (\<forall>n rest. length (json_dumps ea j) \<le> n \<longrightarrow> ok_rest rest \<longrightarrow>
       scan_once n (json_dumps ea j @ rest) = Inr (j, rest)))"
  "(xs \<noteq> [] \<longrightarrow> list_all wf_json xs \<longrightarrow> (\<forall>n rest acc. length (dumps_items ea xs) < n \<longrightarrow>
       scan_array n (dumps_items ea xs @ CHR '']'' # rest) acc = Inr (acc @ xs, rest)))"
  "(kvs \<noteq> [] \<longrightarrow> list_all (\<lambda>kv. wf_json (snd kv)) kvs \<longrightarrow> (\<forall>n rest acc. length (dumps_members ea kvs) < n \<longrightarrow>
       scan_object n (dumps_members ea kvs @ CHR ''}'' # rest) acc = Inr (acc @ kvs, rest)))"
proof (induction ea j and ea xs and ea kvs rule: json_dumps_dumps_items_dumps_members.induct)
  case (1 ea)
  show ?case
  proof (intro impI allI)
    fix n rest assume "length (json_dumps ea JNull) \<le> n"
    then obtain m where "n = Suc m" by (cases n) auto
    then show "scan_once n (json_dumps ea JNull @ rest) = Inr (JNull, rest)"
      using scan_once_null [of m rest] by simp
  qed
next
  case (2 ea b)
  show ?case
  proof (intro impI allI)
    fix n rest assume "length (json_dumps ea (JBool b)) \<le> n"
    then obtain m where "n = Suc m" by (cases n) (auto split: if_splits)
    then show "scan_once n (json_dumps ea (JBool b) @ rest) = Inr (JBool b, rest)"
      using scan_once_true [of m rest] scan_once_false [of m rest] by simp
  qed
next
  case (3 ea i)
  show ?case
  proof (intro impI allI)
    fix n rest assume len: "length (json_dumps ea (JInt i)) \<le> n" and ok: "ok_rest rest"
    obtain c cs where "str_int i = c # cs" using str_int_hd by blast
    with len obtain m where "n = Suc m" by (cases n) auto
    then show "scan_once n (json_dumps ea (JInt i) @ rest) = Inr (JInt i, rest)"
      using scan_once_int [OF ok, of m i] by simp
  qed
next
  case (4 ea s)
  show ?case
  proof (intro impI allI)
    fix n rest assume "length (json_dumps ea (JStr s)) \<le> n"
    then obtain m where "n = Suc m" by (cases n) (auto simp: encode_basestring_def)
    then show "scan_once n (json_dumps ea (JStr s) @ rest) = Inr (JStr s, rest)"
      using scan_once_string [of m ea s rest] by simp
  qed
next
  case (5 ea xs)
  show ?case
  proof (intro impI allI)
    fix n rest
    assume wf: "wf_json (JArr xs)" and len: "length (json_dumps ea (JArr xs)) \<le> n"
    from len obtain m where n: "n = Suc m" and m: "length (dumps_items ea xs) < m"
      by (cases n) auto
    show "scan_once n (json_dumps ea (JArr xs) @ rest) = Inr (JArr xs, rest)"
    proof (cases "xs = []")
      case True
      then show ?thesis using n scan_once_empty_array [of m rest] by simp
    next
      case False
      obtain d r where d: "dumps_items ea xs = d # r" "value_start d"
        using dumps_items_hd [OF False] by blast
      have "scan_array m (dumps_items ea xs @ CHR '']'' # rest) [] = Inr ([] @ xs, rest)"
        using "5.IH" False wf m by simp
      then have "scan_array m (d # (r @ CHR '']'' # rest)) [] = Inr (xs, rest)"
        using d by simp
      from scan_once_array [OF d(2) this] show ?thesis using n d by simp
    qed
  qed
next
  case (6 ea kvs)
  show ?case
  proof (intro impI allI)
    fix n rest
    assume wf: "wf_json (JObj kvs)" and len: "length (json_dumps ea (JObj kvs)) \<le> n"
    from len obtain m where n: "n = Suc m" and m: "length (dumps_members ea kvs) < m"
      by (cases n) auto
    show "scan_once n (json_dumps ea (JObj kvs) @ rest) = Inr (JObj kvs, rest)"
    proof (cases "kvs = []")
      case True
      then show ?thesis using n scan_once_empty_object [of m rest] by simp
    next
      case False
      obtain r where d: "dumps_members ea kvs = dquote # r"
        using dumps_members_hd [OF False] by blast
      have "scan_object m (dumps_members ea kvs @ CHR ''}'' # rest) [] = Inr ([] @ kvs, rest)"
        using "6.IH" False wf m by simp
      then have "scan_object m (dquote # (r @ CHR ''}'' # rest)) [] = Inr (kvs, rest)"
        using d by simp
      from scan_once_object [OF this] show ?thesis
        using n d wf by (simp add: dict_of_pairs_distinct)
    qed
  qed
next
  case (7 ea)
  show ?case by simp
next
  case (8 ea x)
  show ?case
  proof (intro impI allI)
    fix n rest acc
    assume wf: "list_all wf_json [x]" and len: "length (dumps_items ea [x]) < n"
    from len obtain m where n: "n = Suc m" and m: "length (json_dumps ea x) \<le> m"
      by (cases n) auto
    have "scan_once m (json_dumps ea x @ CHR '']'' # rest) = Inr (x, CHR '']'' # rest)"
      using "8.IH" wf m by simp
    from scan_array_last [OF this] show "scan_array n (dumps_items ea [x] @ CHR '']'' # rest) acc = Inr (acc @ [x], rest)"
      using n by simp
  qed
next
  case (9 ea x y ys)
  show ?case
  proof (intro impI allI)
    fix n rest acc
    assume wf: "list_all wf_json (x # y # ys)" and len: "length (dumps_items ea (x # y # ys)) < n"
    let ?tail = "dumps_items ea (y # ys) @ CHR '']'' # rest"
    from len obtain m where n: "n = Suc m" and m: "length (json_dumps ea x) \<le> m"
      and m': "length (dumps_items ea (y # ys)) < m"
      by (cases n) auto
    have "scan_once m (json_dumps ea x @ CHR '','' # CHR '' '' # ?tail) = Inr (x, CHR '','' # CHR '' '' # ?tail)"
      using "9.IH"(1) wf m by simp
    from scan_array_more [OF this]
    have "scan_array (Suc m) (json_dumps ea x @ CHR '','' # CHR '' '' # ?tail) acc
            = scan_array m (skip_ws ?tail) (acc @ [x])" .
    also have "skip_ws ?tail = ?tail" by (rule skip_ws_dumps_items) simp
    also have "scan_array m ?tail (acc @ [x]) = Inr ((acc @ [x]) @ (y # ys), rest)"
      using "9.IH"(2) wf m' by simp
    finally show "scan_array n (dumps_items ea (x # y # ys) @ CHR '']'' # rest) acc = Inr (acc @ x # y # ys, rest)"
      using n by simp
  qed
next
  case (10 ea)
  show ?case by simp
next
  case (11 ea k v)
  show ?case
  proof (intro impI allI)
    fix n rest acc
    assume wf: "list_all (\<lambda>kv. wf_json (snd kv)) [(k, v)]" and len: "length (dumps_members ea [(k, v)]) < n"
    from len obtain m where n: "n = Suc m" and m: "length (json_dumps ea v) \<le> m"
      by (cases n) auto
    let ?after = "json_dumps ea v @ CHR ''}'' # rest"
    have key: "scanstring (concat (map (escape_char ea) k) @ dquote # CHR '':'' # CHR '' '' # ?after) []
                 = Inr (k, CHR '':'' # CHR '' '' # ?after)"
      using scanstring_escaped [of ea k _ "[]"] by simp
    have val: "scan_once m (skip_ws ?after) = Inr (v, CHR ''}'' # rest)"
      using "11.IH" wf m by (simp add: skip_ws_json_dumps)
    from scan_object_last [OF key val]
    show "scan_object n (dumps_members ea [(k, v)] @ CHR ''}'' # rest) acc = Inr (acc @ [(k, v)], rest)"
      using n by (simp add: encode_basestring_def)
  qed
next
  case (12 ea k v kv kvs)
  show ?case
  proof (intro impI allI)
    fix n rest acc
    assume wf: "list_all (\<lambda>kv. wf_json (snd kv)) ((k, v) # kv # kvs)"
      and len: "length (dumps_members ea ((k, v) # kv # kvs)) < n"
    let ?tail = "dumps_members ea (kv # kvs) @ CHR ''}'' # rest"
    let ?after = "json_dumps ea v @ CHR '','' # CHR '' '' # ?tail"
    from len obtain m where n: "n = Suc m" and m: "length (json_dumps ea v) \<le> m"
      and m': "length (dumps_members ea (kv # kvs)) < m"
      by (cases n) auto
    have key: "scanstring (concat (map (escape_char ea) k) @ dquote # CHR '':'' # CHR '' '' # ?after) []
                 = Inr (k, CHR '':'' # CHR '' '' # ?after)"
      using scanstring_escaped [of ea k _ "[]"] by simp
    have val: "scan_once m (skip_ws ?after) = Inr (v, CHR '','' # CHR '' '' # ?tail)"
      using "12.IH"(1) wf m by (simp add: skip_ws_json_dumps)
    from scan_object_more [OF key val]
    have "scan_object (Suc m) (dquote # concat (map (escape_char ea) k) @ dquote # CHR '':'' # CHR '' '' # ?after) acc
            = scan_object m (skip_ws ?tail) (acc @ [(k, v)])" .
    also have "skip_ws ?tail = ?tail" by (rule skip_ws_dumps_members) simp
    also have "scan_object m ?tail (acc @ [(k, v)]) = Inr ((acc @ [(k, v)]) @ (kv # kvs), rest)"
      using "12.IH"(2) wf m' by simp
    finally show "scan_object n (dumps_members ea ((k, v) # kv # kvs) @ CHR ''}'' # rest) acc
                    = Inr (acc @ (k, v) # kv # kvs, rest)"
      using n by (simp add: encode_basestring_def)
  qed
qed

lemma json_loads_dumps: "wf_json j \<Longrightarrow> json_loads (json_dumps ea j) = Inr j"
proof -
  assume wf: "wf_json j"
  let ?s = "json_dumps ea j"
  have sk: "skip_ws ?s = ?s"
    using skip_ws_json_dumps [of ea j "[]"] by simp
  have all: "\<forall>n rest. length ?s \<le> n \<longrightarrow> ok_rest rest \<longrightarrow> scan_once n (?s @ rest) = Inr (j, rest)"
    using scan_roundtrip_aux(1) [of j ea] wf by blast
  have "length ?s \<le> Suc (length ?s)" by simp
  moreover have "ok_rest []" by simp
  ultimately have "scan_once (Suc (length ?s)) (?s @ []) = Inr (j, [])"
    using all by blast
  then have so: "scan_once (Suc (length ?s)) ?s = Inr (j, [])"
    by simp
  have "skip_ws [] = []" by (simp add: skip_ws_def)
  then show ?thesis
    unfolding json_loads_def sk so by simp
qed

section \<open>Properties of the agent loops\<close>

subsection \<open>The iteration cap of the ReAct loop\<close>

declare run_loop.simps [simp del]

lemma process_tool_calls_llm_calls [simp]:
  "llm_calls (snd (process_tool_calls loads tool tcs st)) = llm_calls st"
  by (induction tcs arbitrary: st) (auto simp: Let_def split: sum.splits)

lemma process_tool_calls_ok:
  "list_all (dispatch_ok loads tool) tcs \<Longrightarrow> fst (process_tool_calls loads tool tcs st) = None"
  by (induction tcs arbitrary: st) (auto simp: Let_def dispatch_ok_def split: sum.splits)

lemma run_loop_llm_calls_le:
  "llm_calls (snd (run_loop llm loads tool M i st)) \<le> llm_calls st + nat (M - i)"
proof (induction "nat (M - i)" arbitrary: i st)
  case 0
  then have "\<not> i < M" by simp
  then show ?case by (simp add: run_loop.simps [of llm loads tool M i st])
next
  case (Suc n)
  then have lt: "i < M" and n: "n = nat (M - (i + 1))" by simp_all
  have nat: "nat (M - i) = Suc (nat (M - (i + 1)))" using lt by simp
  show ?case
  proof (cases "llm (llm_calls st) (messages st)")
    case (Inl e)
    then show ?thesis using lt by (simp add: run_loop.simps [of llm loads tool M i st])
  next
    case (Inr m)
    let ?st1 = "st\<lparr>messages := messages st @ [ResponseMessage m], llm_calls := Suc (llm_calls st)\<rparr>"
    show ?thesis
    proof (cases "calls_of m")
      case Nil
      then show ?thesis using lt Inr
        by (simp add: run_loop.simps [of llm loads tool M i st] calls_of_def split: option.splits list.splits)
    next
      case (Cons tc rest)
      then have tcs: "msg_tool_calls m = Some (tc # rest)"
        by (simp add: calls_of_def split: option.splits)
      obtain e st2 where p: "process_tool_calls loads tool (tc # rest) ?st1 = (e, st2)"
        by (cases "process_tool_calls loads tool (tc # rest) ?st1")
      have l2: "llm_calls st2 = Suc (llm_calls st)"
        using process_tool_calls_llm_calls [of loads tool "tc # rest" ?st1] p by simp
      show ?thesis
      proof (cases e)
        case (Some err)
        then show ?thesis using lt Inr tcs p l2
          by (simp add: run_loop.simps [of llm loads tool M i st])
      next
        case None
        have "llm_calls (snd (run_loop llm loads tool M (i + 1) st2)) \<le> llm_calls st2 + nat (M - (i + 1))"
          by (rule Suc.hyps(1) [OF n])
        then show ?thesis using lt Inr tcs p l2 None nat
          by (simp add: run_loop.simps [of llm loads tool M i st])
      qed
    qed
  qed
qed

lemma run_loop_exhausts:
  assumes h: "\<forall>i ms. \<exists>m. llm i ms = Inr m \<and> has_tool_calls m \<and> list_all (dispatch_ok loads tool) (calls_of m)"
  shows "fst (run_loop llm loads tool M i st) = Inr (Sentinel sentinel_text) \<and>
         llm_calls (snd (run_loop llm loads tool M i st)) = llm_calls st + nat (M - i)"
proof (induction "nat (M - i)" arbitrary: i st)
  case 0
  then have "\<not> i < M" by simp
  then show ?case by (simp add: run_loop.simps [of llm loads tool M i st])
next
  case (Suc n)
  then have lt: "i < M" and n: "n = nat (M - (i + 1))" by simp_all
  have nat: "nat (M - i) = Suc (nat (M - (i + 1)))" using lt by simp
  from h obtain m where m: "llm (llm_calls st) (messages st) = Inr m" "has_tool_calls m"
    "list_all (dispatch_ok loads tool) (calls_of m)" by blast
  let ?st1 = "st\<lparr>messages := messages st @ [ResponseMessage m], llm_calls := Suc (llm_calls st)\<rparr>"
  from m(2) obtain tc rest where tcs: "msg_tool_calls m = Some (tc # rest)"
    by (auto split: option.splits list.splits simp: neq_Nil_conv)
  then have c: "calls_of m = tc # rest" by (simp add: calls_of_def)
  obtain e st2 where p: "process_tool_calls loads tool (tc # rest) ?st1 = (e, st2)"
    by (cases "process_tool_calls loads tool (tc # rest) ?st1")
  have e: "e = None"
    using process_tool_calls_ok [of loads tool "tc # rest" ?st1] m(3) c p by simp
  have l2: "llm_calls st2 = Suc (llm_calls st)"
    using process_tool_calls_llm_calls [of loads tool "tc # rest" ?st1] p by simp
  have "fst (run_loop llm loads tool M (i + 1) st2) = Inr (Sentinel sentinel_text) \<and>
        llm_calls (snd (run_loop llm loads tool M (i + 1) st2)) = llm_calls st2 + nat (M - (i + 1))"
    by (rule Suc.hyps(1) [OF n])
  then show ?case using lt m(1) tcs p e l2 nat
    by (simp add: run_loop.simps [of llm loads tool M i st])
qed

text \<open>
  Claim C2, as stated, at an LLM whose responses all contain a tool call, the arguments
  of which are the text \<^verbatim>\<open>{\<close>: the loop makes one LLM call and ends with the
  \<^verbatim>\<open>JSONDecodeError\<close> of \<^verbatim>\<open>json.loads\<close>, not with the sentinel after ten round trips.
\<close>

theorem C2_loop_raises_counterexample:
  "has_tool_calls \<lparr>msg_content = None, msg_tool_calls = Some [weather_call ''{'']\<rparr>
   \<and> fst (Agent_run (Agent_init ''qwen3:4b'') llm_bad_arguments json_loads tool_text conversation)
       = Inl (JSONDecodeError ''Expecting property name enclosed in double quotes'')
   \<and> llm_calls (snd (Agent_run (Agent_init ''qwen3:4b'') llm_bad_arguments json_loads tool_text conversation)) = 1"
  by (simp add: Agent_run_def Agent_init_def llm_bad_arguments_def weather_call_def
      run_loop.simps [of _ _ _ 10 0] Let_def json_loads_def arguments_or_empty_def
      scan_once.simps skip_ws_def is_ws_def dquote_def)

text \<open>
  Claim C2, amended: the loop never makes more LLM calls than its iteration cap,
  whatever the LLM, \<^verbatim>\<open>json.loads\<close> and the tools do; and when every LLM response contains
  tool calls and every one of these tool calls dispatches without an exception
  (\<^verbatim>\<open>json.loads\<close> returns on its arguments, whatever value that is, and the tool backend
  answers), the loop makes exactly \<^verbatim>\<open>max_iterations\<close> LLM calls and then returns the
  sentinel string instead of raising.
\<close>

theorem C2_iteration_cap:
  "llm_calls (snd (Agent_run self llm loads tool msgs)) \<le> nat (max_iterations self)
   \<and> ((\<forall>i ms. \<exists>m. llm i ms = Inr m \<and> has_tool_calls m \<and> list_all (dispatch_ok loads tool) (calls_of m)) \<longrightarrow>
        fst (Agent_run self llm loads tool msgs) = Inr (Sentinel sentinel_text) \<and>
        llm_calls (snd (Agent_run self llm loads tool msgs)) = nat (max_iterations self))"
  using run_loop_llm_calls_le [of llm loads tool "max_iterations self" 0
      "\<lparr>messages = msgs, llm_calls = 0, dispatched = []\<rparr>"]
    run_loop_exhausts [of llm loads tool "max_iterations self" 0
      "\<lparr>messages = msgs, llm_calls = 0, dispatched = []\<rparr>"]
  by (simp add: Agent_run_def)

theorem C2_iteration_cap_witness:
  "fst (Agent_run (Agent_init ''qwen3:4b'') llm_always_weather json_loads tool_text conversation)
     = Inr (Sentinel sentinel_text)
   \<and> llm_calls (snd (Agent_run (Agent_init ''qwen3:4b'') llm_always_weather json_loads tool_text conversation)) = 10"
proof -
  have wf: "wf_json bratislava" by (simp add: bratislava_def)
  have ok: "dispatch_ok json_loads tool_text (weather_call (json_dumps True bratislava))"
    using json_loads_dumps [OF wf, of True]
    by (simp add: dispatch_ok_def weather_call_def arguments_or_empty_def tool_text_def bratislava_def
        encode_basestring_def)
  have h: "\<forall>i ms. \<exists>m. llm_always_weather i ms = Inr m \<and> has_tool_calls m \<and>
             list_all (dispatch_ok json_loads tool_text) (calls_of m)"
    using ok by (simp add: llm_always_weather_def calls_of_def)
  have "max_iterations (Agent_init ''qwen3:4b'') = 10" by (simp add: Agent_init_def)
  then show ?thesis
    using h C2_iteration_cap [of "Agent_init ''qwen3:4b''" llm_always_weather json_loads tool_text conversation]
    by simp
qed

subsection \<open>The single-shot agent\<close>




section \<open>Properties of the graph workflow\<close>

text \<open>
  Claim C10: whatever the cache agent answers, \<^verbatim>\<open>CheckCacheNode\<close> puts all requested
  cities into \<^verbatim>\<open>cached_cities\<close> or all of them into \<^verbatim>\<open>missing_cities\<close>, the other list
  being empty, and \<^verbatim>\<open>needs_fetch\<close> is true exactly when \<^verbatim>\<open>missing_cities\<close> is
  non-empty.
\<close>

theorem C10_all_or_nothing:
  "(let r = CheckCacheNode state_cities response_content;
        cities = (case state_cities of None \<Rightarrow> [] | Some cs \<Rightarrow> cs)
    in ((cached_cities r = cities \<and> missing_cities r = []) \<or>
        (missing_cities r = cities \<and> cached_cities r = []))
       \<and> needs_fetch r = (missing_cities r \<noteq> []))"
  by (simp add: CheckCacheNode_def Let_def split: option.splits)

section \<open>Properties of the response adapters\<close>

subsection \<open>Flattening of tool responses\<close>

lemma text_parts_filter: "text_parts cs = map part_text (filter has_text cs)"
  by (induction cs) auto

text \<open>
  Claim C5, as stated, at a response that carries both a structured payload and a text
  part: \<^verbatim>\<open>mcp_tool_response_to_text\<close> returns the payload as JSON text, the router's
  \<^verbatim>\<open>call_tool\<close> returns the text part and never looks at the payload.
\<close>

theorem C5_router_ignores_structured_payload_counterexample:
  \<open>structuredContent structured_response = Some (JObj [(''temperature'', JInt 21)])
   \<and> json_dumps False (JObj [(''temperature'', JInt 21)]) = ''{"temperature": 21}''
   \<and> mcp_tool_response_to_text structured_response = ''{"temperature": 21}''
   \<and> call_tool remote_structured router12 ''a'' (JObj []) = (''21 degrees'', [ClientSession ''1''])\<close>
proof -
  have 1: \<open>json_dumps False (JObj [(''temperature'', JInt 21)]) = ''{"temperature": 21}''\<close>
    by code_simp
  have 2: "structuredContent structured_response = Some (JObj [(''temperature'', JInt 21)])"
    by (simp add: structured_response_def)
  have 3: \<open>mcp_tool_response_to_text structured_response = ''{"temperature": 21}''\<close>
    unfolding mcp_tool_response_to_text_def 2 using 1 by simp
  have 4: "call_tool remote_structured router12 ''a'' (JObj []) = (''21 degrees'', [ClientSession ''1''])"
    by (simp add: structured_response_def call_tool_def remote_structured_def router12_def
        MultiMCPClient_connect_def MultiMCPClient_init_def servers12_def world12_def
        MCPServerConnection_init_def Let_def)
  show ?thesis using 1 2 3 4 by simp
qed

text \<open>
  Claim C5, amended: the two flattening functions follow different policies.
  \<^verbatim>\<open>mcp_tool_response_to_text\<close> (lesson 2) returns the structured payload as JSON text when
  there is one; otherwise it joins, with newlines and in their order, the parts of the
  content list, a text part by its text and any other part by its \<^verbatim>\<open>str()\<close>. The
  router's \<^verbatim>\<open>call_tool\<close> (lesson 5) does not use the structured payload: it joins, with
  newlines and in their order, the texts of the parts that have one, and returns
  \<^verbatim>\<open>No response content\<close> for an empty content list.
\<close>

theorem C5_flattening_policies:
  "(structuredContent resp = Some sc \<longrightarrow> mcp_tool_response_to_text resp = json_dumps False sc)
   \<and> (structuredContent resp = None \<longrightarrow>
        mcp_tool_response_to_text resp = str_join newline (map part_to_text (content resp)))
   \<and> (map_of (tool_to_server self) tool_name = Some r \<and> session (heap self r) = Some s \<and>
        remote s tool_name parameters = Inr response \<longrightarrow>
        call_tool remote self tool_name parameters =
          (if content response \<noteq> []
           then str_join newline (map part_text (filter has_text (content response)))
           else ''No response content'', [s]))"
  by (simp add: mcp_tool_response_to_text_def call_tool_def Let_def text_parts_filter)

theorem C5_flattening_policies_witness:
  \<open>mcp_tool_response_to_text structured_response = json_dumps False (JObj [(''temperature'', JInt 21)])
   \<and> mcp_tool_response_to_text
        \<lparr>content = [TextContent ''a'', OtherContent ''<image>'', TextContent ''b''], structuredContent = None\<rparr>
       = ''a'' @ newline @ ''<image>'' @ newline @ ''b''
   \<and> call_tool remote_structured router12 ''a'' (JObj []) = (''21 degrees'', [ClientSession ''1''])\<close>
proof -
  have r: "map_of (tool_to_server router12) ''a'' = Some 0"
    and s: "session (heap router12 0) = Some (ClientSession ''1'')"
    by (simp_all add: router12_def MultiMCPClient_connect_def MultiMCPClient_init_def servers12_def
        world12_def MCPServerConnection_init_def Let_def)
  have q: "remote_structured (ClientSession ''1'') ''a'' (JObj []) = Inr structured_response"
    by (simp add: remote_structured_def)
  have 1: "mcp_tool_response_to_text structured_response
             = json_dumps False (JObj [(''temperature'', JInt 21)])"
    using C5_flattening_policies [of structured_response "JObj [(''temperature'', JInt 21)]"
        router12 "''a''" 0 "ClientSession ''1''" remote_structured "JObj []" structured_response] r s q
    by (simp add: structured_response_def)
  have 2: "mcp_tool_response_to_text
        \<lparr>content = [TextContent ''a'', OtherContent ''<image>'', TextContent ''b''], structuredContent = None\<rparr>
       = ''a'' @ newline @ ''<image>'' @ newline @ ''b''"
    using C5_flattening_policies [of
        "\<lparr>content = [TextContent ''a'', OtherContent ''<image>'', TextContent ''b''], structuredContent = None\<rparr>"
        JNull router12 "''a''" 0 "ClientSession ''1''" remote_structured "JObj []" structured_response] r s q
    by simp
  have 3: "call_tool remote_structured router12 ''a'' (JObj []) = (''21 degrees'', [ClientSession ''1''])"
    using C5_flattening_policies [of structured_response JNull router12 "''a''" 0
        "ClientSession ''1''" remote_structured "JObj []" structured_response] r s q
    by (simp add: structured_response_def)
  show ?thesis using 1 2 3 by simp
qed

subsection \<open>The reasoning channel\<close>












subsection \<open>Tool-call arguments as JSON text\<close>

text \<open>
  A backend tool call whose arguments are a dictionary is converted, in both clients, to
  a tool call whose arguments are the \<^verbatim>\<open>json.dumps\<close> text of that dictionary.
\<close>

lemma convert_tool_call_arguments:
  assumes "py_get tcd ''function'' (JObj []) = JObj func"
    and "py_get func ''arguments'' (JObj []) = JObj a"
    and "convert_tool_call i (JObj tcd) = Inr call"
  shows "fn_arguments (tc_function call) = json_dumps True (JObj a)"
  using assms
  by (auto simp: convert_tool_call_def Let_def split: option.splits)

end
